theory Spec2Isabelle
  imports Complex_Main "HOL-Library.Multiset" "HOL-Library.AList"
begin

section \<open>The probe: \<^verbatim>\<open>check_tcp_open\<close>\<close>

text \<open>
  \<^verbatim>\<open>check_tcp_open(host, port, timeout_seconds)\<close> reads the performance counter, calls
  \<^verbatim>\<open>socket.create_connection\<close> and classifies what happens. The socket library and the
  clock are the environment of the function: the model takes the first clock reading and
  the behaviour of \<^verbatim>\<open>create_connection\<close> as arguments. A connection attempt either
  succeeds (the model keeps the clock reading taken right after it) or raises an exception,
  of which only the class matters to the handlers.
\<close>

datatype exc_class =
    gaierror                  \<comment> \<open>\<^verbatim>\<open>socket.gaierror\<close>, a subclass of \<^verbatim>\<open>OSError\<close>\<close>
  | TimeoutError              \<comment> \<open>builtin \<^verbatim>\<open>TimeoutError\<close> (\<^verbatim>\<open>socket.timeout\<close>), a subclass of \<^verbatim>\<open>OSError\<close>\<close>
  | ConnectionRefusedError    \<comment> \<open>a subclass of \<^verbatim>\<open>ConnectionError\<close>, hence of \<^verbatim>\<open>OSError\<close>\<close>
  | OSError                   \<comment> \<open>any other \<^verbatim>\<open>OSError\<close>\<close>
  | UnicodeError              \<comment> \<open>a \<^verbatim>\<open>ValueError\<close>: the host name cannot be IDNA-encoded\<close>
  | RuntimeError              \<comment> \<open>raised by \<^verbatim>\<open>submit\<close> on a pool that was shut down\<close>
  | CancelledError            \<comment> \<open>raised by \<^verbatim>\<open>result()\<close> of a cancelled future\<close>
  | KeyError                  \<comment> \<open>a dictionary lookup that misses\<close>
  | ValueError                \<comment> \<open>any other \<^verbatim>\<open>ValueError\<close>\<close>
  | TclError                  \<comment> \<open>Tk: a command on a widget that was destroyed\<close>
  | InterpolationSyntaxError  \<comment> \<open>\<^verbatim>\<open>configparser\<close>: a percent sign that starts nothing\<close>
  | InterpolationMissingOptionError
  | InterpolationDepthError
  | MissingSectionHeaderError \<comment> \<open>\<^verbatim>\<open>configparser\<close>: an option before any section\<close>
  | DuplicateSectionError
  | DuplicateOptionError
  | ParsingError              \<comment> \<open>\<^verbatim>\<open>configparser\<close>: a line that is neither header nor option\<close>

text \<open>\<open>isinstance e c\<close>: an exception of class \<open>e\<close> is caught by \<^verbatim>\<open>except c\<close>.\<close>

fun isinstance :: "exc_class \<Rightarrow> exc_class \<Rightarrow> bool" where
  "isinstance e OSError = (e = gaierror \<or> e = TimeoutError \<or> e = ConnectionRefusedError \<or> e = OSError)"
| "isinstance e ValueError = (e = UnicodeError \<or> e = ValueError)"
| "isinstance e c = (e = c)"

datatype connect_result =
    Connected real          \<comment> \<open>the connection was made; \<^verbatim>\<open>time.perf_counter()\<close> then reads this\<close>
  | ConnectRaises exc_class

type_synonym socket_lib = "string \<Rightarrow> int \<Rightarrow> real \<Rightarrow> connect_result"

text \<open>
  The result is \<open>Inr (status, latency)\<close> when the function returns and \<open>Inl e\<close> when the
  exception \<open>e\<close> leaves it. The handlers are tried in the order of the source.
\<close>

definition check_tcp_open ::
  "real \<Rightarrow> socket_lib \<Rightarrow> string \<Rightarrow> int \<Rightarrow> real \<Rightarrow> exc_class + (string \<times> real option)" where
  "check_tcp_open start create_connection host port timeout_seconds =
     (case create_connection host port timeout_seconds of
        Connected now \<Rightarrow>
          (let latency_ms = (now - start) * 1000 in Inr (''OPEN'', Some latency_ms))
      | ConnectRaises e \<Rightarrow>
          if isinstance e gaierror then Inr (''DNS_FAIL'', None)
          else if isinstance e TimeoutError then Inr (''TIMEOUT'', None)
          else if isinstance e OSError then
            (if isinstance e ConnectionRefusedError then Inr (''CLOSED'', None)
             else Inr (''ERROR'', None))
          else Inl e)"

section \<open>Strings of the Python runtime\<close>

text \<open>
  The string functions the program calls: \<^verbatim>\<open>str.strip\<close>, \<^verbatim>\<open>str(int)\<close>, \<^verbatim>\<open>int(str)\<close>,
  \<^verbatim>\<open>rsplit(":", 1)\<close>. A string is a list of characters with code points below 256.
  \<open>is_space\<close> is \<^verbatim>\<open>str.isspace\<close> on these (also what \<^verbatim>\<open>\s\<close> matches and what
  \<^verbatim>\<open>strip\<close> removes); \<^verbatim>\<open>int\<close> drops a smaller set around a literal
  (\<open>is_int_space\<close>).
\<close>

definition is_space :: "char \<Rightarrow> bool" where
  "is_space c = (of_char c \<in> {9, 10, 11, 12, 13, 28, 29, 30, 31, 32, 133, 160 :: nat})"

definition lstrip :: "string \<Rightarrow> string" where
  "lstrip s = dropWhile is_space s"

definition rstrip :: "string \<Rightarrow> string" where
  "rstrip s = rev (dropWhile is_space (rev s))"

definition strip :: "string \<Rightarrow> string" where
  "strip s = rev (dropWhile is_space (rev (dropWhile is_space s)))"

definition is_digit :: "char \<Rightarrow> bool" where
  "is_digit c = (48 \<le> (of_char c :: nat) \<and> (of_char c :: nat) \<le> 57)"

definition digit_val :: "char \<Rightarrow> nat" where
  "digit_val c = of_char c - 48"

definition digit_char :: "nat \<Rightarrow> char" where
  "digit_char d = char_of (48 + d)"

text \<open>\<^verbatim>\<open>str(n)\<close> for an integer: decimal digits, a minus sign for a negative number.\<close>

fun str_nat :: "nat \<Rightarrow> string" where
  "str_nat n = (if n < 10 then [digit_char n] else str_nat (n div 10) @ [digit_char (n mod 10)])"

declare str_nat.simps [simp del]

definition str_int :: "int \<Rightarrow> string" where
  "str_int i = (if i < 0 then CHR ''-'' # str_nat (nat (- i)) else str_nat (nat i))"

text \<open>
  \<^verbatim>\<open>int(s)\<close>: white space around the literal is dropped, a sign may come first, the
  digits may be grouped by single underscores. \<open>None\<close> stands for \<^verbatim>\<open>ValueError\<close>.
\<close>

definition is_int_space :: "char \<Rightarrow> bool" where
  "is_int_space c = (of_char c \<in> {9, 10, 11, 12, 13, 32, 133, 160 :: nat})"

fun parse_digits :: "bool \<Rightarrow> nat \<Rightarrow> string \<Rightarrow> nat option" where
  "parse_digits after_digit acc [] = (if after_digit then Some acc else None)"
| "parse_digits after_digit acc (c # cs) =
     (if is_digit c then parse_digits True (acc * 10 + digit_val c) cs
      else if c = CHR ''_'' \<and> after_digit then parse_digits False acc cs
      else None)"

definition py_int :: "string \<Rightarrow> int option" where
  "py_int s =
     (case rev (dropWhile is_int_space (rev (dropWhile is_int_space s))) of
        [] \<Rightarrow> None
      | c # cs \<Rightarrow>
          if c = CHR ''-'' then map_option (\<lambda>n. - int n) (parse_digits False 0 cs)
          else if c = CHR ''+'' then map_option int (parse_digits False 0 cs)
          else map_option int (parse_digits False 0 (c # cs)))"

text \<open>
  \<^verbatim>\<open>raw.rsplit(":", 1)\<close> for a string that contains a colon: the text before the last
  colon and the text after it.
\<close>

definition rsplit_colon :: "string \<Rightarrow> string \<times> string" where
  "rsplit_colon raw =
     (let after = takeWhile (\<lambda>c. c \<noteq> CHR '':'') (rev raw)
      in (rev (drop (length after + 1) (rev raw)), rev after))"

section \<open>The INI library\<close>

text \<open>
  What \<^verbatim>\<open>configparser.ConfigParser(inline_comment_prefixes=(";", "#"))\<close> with
  \<^verbatim>\<open>optionxform = str\<close> does for the program (Python 3.11): the check of a value when it
  is set, the text that \<^verbatim>\<open>write\<close> produces, the parser behind \<^verbatim>\<open>read\<close>, and the
  interpolation of a value when it is read out. A parser holds its default section and
  its sections, both ordered dictionaries (association lists in insertion order; setting
  a key that is present replaces its value in place, \<open>AList.update\<close>).
\<close>

type_synonym options = "(string \<times> string) list"

record config =
  defaults :: options
  sections :: "(string \<times> options) list"

definition newline :: char where
  "newline = CHR 0x0A"

definition tab :: char where
  "tab = CHR 0x09"

subsection \<open>Setting a value\<close>

text \<open>
  \<^verbatim>\<open>_KEYCRE.match\<close>, the pattern \<^verbatim>\<open>%\(([^)]+)\)s\<close> at the head of a string that starts
  with \<^verbatim>\<open>%(\<close>: the argument is what comes after these two characters, the result the
  name and what comes after the reference.
\<close>

definition key_match :: "string \<Rightarrow> (string \<times> string) option" where
  "key_match xs =
     (let var = takeWhile (\<lambda>c. c \<noteq> CHR '')'') xs;
          rest = dropWhile (\<lambda>c. c \<noteq> CHR '')'') xs
      in if var \<noteq> [] \<and> take 2 rest = '')s'' then Some (var, drop 2 rest) else None)"

lemma key_match_shorter: "key_match xs = Some (var, rest) \<Longrightarrow> length rest < length xs"
proof -
  assume "key_match xs = Some (var, rest)"
  then have "rest = drop 2 (dropWhile (\<lambda>c. c \<noteq> CHR '')'') xs)"
    and "take 2 (dropWhile (\<lambda>c. c \<noteq> CHR '')'') xs) = '')s''"
    by (auto simp: key_match_def Let_def split: if_splits)
  moreover have "length (dropWhile (\<lambda>c. c \<noteq> CHR '')'') xs) \<le> length xs"
    by (rule length_dropWhile_le)
  ultimately show ?thesis
    by (cases "dropWhile (\<lambda>c. c \<noteq> CHR '')'') xs") auto
qed

text \<open>
  \<^verbatim>\<open>BasicInterpolation.before_set\<close>: the escaped percent signs and the references are
  taken out (\<^verbatim>\<open>value.replace('%%', '')\<close>, \<^verbatim>\<open>_KEYCRE.sub('', tmp_value)\<close>); a percent
  sign that is left makes the assignment raise \<^verbatim>\<open>ValueError\<close>.
\<close>

fun drop_escaped :: "string \<Rightarrow> string" where
  "drop_escaped [] = []"
| "drop_escaped [c] = [c]"
| "drop_escaped (c # d # cs) =
     (if c = CHR ''%'' \<and> d = CHR ''%'' then drop_escaped cs else c # drop_escaped (d # cs))"

function drop_refs :: "string \<Rightarrow> string" where
  "drop_refs [] = []"
| "drop_refs [c] = [c]"
| "drop_refs (c # d # cs) =
     (if c = CHR ''%'' \<and> d = CHR ''(''
      then (case key_match cs of
              Some (var, rest) \<Rightarrow> drop_refs rest
            | None \<Rightarrow> c # drop_refs (d # cs))
      else c # drop_refs (d # cs))"
  by pat_completeness auto
termination
  by (relation "measure length") (auto dest: key_match_shorter)

definition before_set_ok :: "string \<Rightarrow> bool" where
  "before_set_ok v = (CHR ''%'' \<notin> set (drop_refs (drop_escaped v)))"

text \<open>
  \<^verbatim>\<open>parser.set(section, option, value)\<close> on the options of a section, as
  \<^verbatim>\<open>cfg[section][option] = value\<close> and \<^verbatim>\<open>cfg[section] = {...}\<close> call it: an empty value
  is not checked.
\<close>

definition set_option :: "string \<Rightarrow> string \<Rightarrow> options \<Rightarrow> exc_class + options" where
  "set_option k v opts =
     (if v \<noteq> [] \<and> \<not> before_set_ok v then Inl ValueError else Inr (AList.update k v opts))"

fun set_options :: "(string \<times> string) list \<Rightarrow> options \<Rightarrow> exc_class + options" where
  "set_options [] opts = Inr opts"
| "set_options ((k, v) # kvs) opts =
     (case set_option k v opts of
        Inl e \<Rightarrow> Inl e
      | Inr opts' \<Rightarrow> set_options kvs opts')"

subsection \<open>Writing\<close>

text \<open>
  \<^verbatim>\<open>ConfigParser.write\<close>: the default section when it has options, then the sections;
  a line break inside a value is followed by a tab. (The file is written and read with the
  same encoding and line ends; \<^verbatim>\<open>read\<close> then sees a carriage return as a line end.)
\<close>

fun escape_newlines :: "string \<Rightarrow> string" where
  "escape_newlines [] = []"
| "escape_newlines (c # cs) =
     (if c = newline then newline # tab # escape_newlines cs else c # escape_newlines cs)"

definition write_section :: "string \<Rightarrow> options \<Rightarrow> string" where
  "write_section section_name items =
     ''['' @ section_name @ '']'' @ [newline]
     @ concat (map (\<lambda>kv. fst kv @ '' = '' @ escape_newlines (snd kv) @ [newline]) items)
     @ [newline]"

definition cfg_write :: "config \<Rightarrow> string" where
  "cfg_write cfg =
     (if defaults cfg \<noteq> [] then write_section ''DEFAULT'' (defaults cfg) else [])
     @ concat (map (\<lambda>s. write_section (fst s) (snd s)) (sections cfg))"

subsection \<open>Reading\<close>

text \<open>
  \<^verbatim>\<open>ConfigParser._read\<close>. The file is read as text with universal line ends: a carriage
  return, alone or before a line feed, arrives as a line feed, and the lines keep their
  line feed.
\<close>

fun universal_newlines :: "string \<Rightarrow> string" where
  "universal_newlines [] = []"
| "universal_newlines [c] = (if c = CHR 0x0D then [newline] else [c])"
| "universal_newlines (c # d # cs) =
     (if c = CHR 0x0D \<and> d = newline then newline # universal_newlines cs
      else if c = CHR 0x0D then newline # universal_newlines (d # cs)
      else c # universal_newlines (d # cs))"

fun file_lines :: "string \<Rightarrow> string list" where
  "file_lines [] = []"
| "file_lines (c # cs) =
     (if c = newline then [c] # file_lines cs
      else (case file_lines cs of
              [] \<Rightarrow> [[c]]
            | l # ls \<Rightarrow> (c # l) # ls))"

text \<open>
  Where the inline comment of a line starts. Round after round the parser looks at the
  next occurrence of each of \<^verbatim>\<open>;\<close> and \<^verbatim>\<open>#\<close>; an occurrence counts when it is at the
  head of the line or follows white space, and the first round in which one counts
  decides (with the smaller index of that round). A line that starts with \<^verbatim>\<open>#\<close> or
  \<^verbatim>\<open>;\<close> after \<^verbatim>\<open>strip\<close> is a comment as a whole.
\<close>

definition occurrences :: "char \<Rightarrow> string \<Rightarrow> nat list" where
  "occurrences p line = filter (\<lambda>i. line ! i = p) [0..<length line]"

definition starts_comment :: "string \<Rightarrow> nat \<Rightarrow> bool" where
  "starts_comment line i = (i = 0 \<or> is_space (line ! (i - 1)))"

function comment_rounds :: "string \<Rightarrow> nat list \<Rightarrow> nat list \<Rightarrow> nat option" where
  "comment_rounds line ps qs =
     (if ps = [] \<and> qs = [] then None
      else
        let found = filter (starts_comment line) (take 1 ps @ take 1 qs)
        in if found \<noteq> [] then Some (min_list found)
           else comment_rounds line (tl ps) (tl qs))"
  by pat_completeness auto
termination
  by (relation "measure (\<lambda>(line, ps, qs). length ps + length qs)") (auto intro: add_less_le_mono simp: neq_Nil_conv)

declare comment_rounds.simps [simp del]

definition comment_start :: "string \<Rightarrow> nat option" where
  "comment_start line =
     (if take 1 (strip line) = ''#'' \<or> take 1 (strip line) = '';'' then Some 0
      else comment_rounds line (occurrences (CHR '';'') line) (occurrences (CHR ''#'') line))"

definition line_value :: "string \<Rightarrow> string" where
  "line_value line =
     strip (case comment_start line of None \<Rightarrow> line | Some i \<Rightarrow> take i line)"

text \<open>\<^verbatim>\<open>NONSPACECRE.search(line)\<close>: the index of the first character that is not white space.\<close>

definition indent_of :: "string \<Rightarrow> nat" where
  "indent_of line = (if list_all is_space line then 0 else length (takeWhile is_space line))"

text \<open>
  \<^verbatim>\<open>SECTCRE.match(value)\<close>, the pattern \<^verbatim>\<open>\[(.+)\]\<close>: the header runs to the last
  closing bracket and is not empty.
\<close>

definition sect_header :: "string \<Rightarrow> string option" where
  "sect_header v =
     (case v of
        [] \<Rightarrow> None
      | c # rest \<Rightarrow>
          if c = CHR ''['' \<and> CHR '']'' \<in> set rest
               \<and> rev (tl (dropWhile (\<lambda>x. x \<noteq> CHR '']'') (rev rest))) \<noteq> []
          then Some (rev (tl (dropWhile (\<lambda>x. x \<noteq> CHR '']'') (rev rest))))
          else None)"

text \<open>
  \<^verbatim>\<open>_optcre.match(value)\<close>, the pattern \<^verbatim>\<open>(.*?)\s*(=|:)\s*(.*)$\<close>: the option is what
  stands before the first \<^verbatim>\<open>=\<close> or \<^verbatim>\<open>:\<close>, without the white space at its end (this
  is \<^verbatim>\<open>optname.rstrip()\<close> too), the value what stands after it, stripped.
\<close>

definition is_delim :: "char \<Rightarrow> bool" where
  "is_delim c = (c = CHR ''='' \<or> c = CHR '':'')"

definition opt_match :: "string \<Rightarrow> (string \<times> string) option" where
  "opt_match v =
     (case dropWhile (\<lambda>c. \<not> is_delim c) v of
        [] \<Rightarrow> None
      | d # rest \<Rightarrow> Some (rstrip (takeWhile (\<lambda>c. \<not> is_delim c) v), strip rest))"

text \<open>
  The state of the loop over the lines. While a file is parsed the value of an option is
  the list of its lines. \<open>p_optname\<close> is empty where the code has \<^verbatim>\<open>None\<close> or the
  empty string (the code only asks whether it is true). \<open>p_added\<close> is
  \<^verbatim>\<open>elements_added\<close>: section names and (section, option) pairs.
\<close>

datatype cursor = NoSection | InDefaults | InSection string

record pstate =
  p_defaults :: "(string \<times> string list) list"
  p_sections :: "(string \<times> (string \<times> string list) list) list"
  p_cursect :: cursor
  p_sectname :: string
  p_optname :: string
  p_indent :: nat
  p_added :: "(string + string \<times> string) list"
  p_error :: bool

definition pstate0 :: pstate where
  "pstate0 = \<lparr>p_defaults = [], p_sections = [], p_cursect = NoSection, p_sectname = [],
     p_optname = [], p_indent = 0, p_added = [], p_error = False\<rparr>"

text \<open>The options \<^verbatim>\<open>cursect\<close> points to, and an update of them.\<close>

definition cur_options :: "pstate \<Rightarrow> (string \<times> string list) list" where
  "cur_options st =
     (case p_cursect st of
        NoSection \<Rightarrow> []
      | InDefaults \<Rightarrow> p_defaults st
      | InSection n \<Rightarrow> (case map_of (p_sections st) n of None \<Rightarrow> [] | Some opts \<Rightarrow> opts))"

definition set_cur_options :: "(string \<times> string list) list \<Rightarrow> pstate \<Rightarrow> pstate" where
  "set_cur_options opts st =
     (case p_cursect st of
        NoSection \<Rightarrow> st
      | InDefaults \<Rightarrow> st\<lparr>p_defaults := opts\<rparr>
      | InSection n \<Rightarrow> st\<lparr>p_sections := AList.update n opts (p_sections st)\<rparr>)"

definition append_line :: "string \<Rightarrow> pstate \<Rightarrow> pstate" where
  "append_line v st =
     (case map_of (cur_options st) (p_optname st) of
        None \<Rightarrow> st
      | Some ls \<Rightarrow> set_cur_options (AList.update (p_optname st) (ls @ [v]) (cur_options st)) st)"

text \<open>One line of the file.\<close>

definition parse_line :: "string \<Rightarrow> pstate \<Rightarrow> exc_class + pstate" where
  "parse_line line st =
     (let v = line_value line in
      if v = [] then
        (if comment_start line = None \<and> p_cursect st \<noteq> NoSection \<and> p_optname st \<noteq> []
         then Inr (append_line [] st) else Inr st)
      else if p_cursect st \<noteq> NoSection \<and> p_optname st \<noteq> [] \<and> indent_of line > p_indent st
      then Inr (append_line v st)
      else
        let st1 = st\<lparr>p_indent := indent_of line\<rparr> in
        (case sect_header v of
           Some h \<Rightarrow>
             if h \<in> fst ` set (p_sections st1) then
               (if Inl h \<in> set (p_added st1) then Inl DuplicateSectionError
                else Inr (st1\<lparr>p_sectname := h, p_cursect := InSection h,
                              p_added := p_added st1 @ [Inl h], p_optname := []\<rparr>))
             else if h = ''DEFAULT'' then
               Inr (st1\<lparr>p_sectname := h, p_cursect := InDefaults, p_optname := []\<rparr>)
             else
               Inr (st1\<lparr>p_sectname := h, p_cursect := InSection h,
                         p_sections := p_sections st1 @ [(h, [])],
                         p_added := p_added st1 @ [Inl h], p_optname := []\<rparr>)
         | None \<Rightarrow>
             if p_cursect st1 = NoSection then Inl MissingSectionHeaderError
             else
               (case opt_match v of
                  None \<Rightarrow> Inr (st1\<lparr>p_error := True\<rparr>)
                | Some (k, val) \<Rightarrow>
                    let st2 = st1\<lparr>p_error := (p_error st1 \<or> k = []), p_optname := k\<rparr> in
                    if Inr (p_sectname st2, k) \<in> set (p_added st2) then Inl DuplicateOptionError
                    else
                      let st3 = st2\<lparr>p_added := p_added st2 @ [Inr (p_sectname st2, k)]\<rparr>
                      in Inr (set_cur_options (AList.update k [val] (cur_options st3)) st3))))"

fun parse_lines :: "string list \<Rightarrow> pstate \<Rightarrow> exc_class + pstate" where
  "parse_lines [] st = Inr st"
| "parse_lines (line # ls) st =
     (case parse_line line st of
        Inl e \<Rightarrow> Inl e
      | Inr st' \<Rightarrow> parse_lines ls st')"

text \<open>
  \<^verbatim>\<open>_join_multiline_values\<close>: the lines of a value are joined by line feeds and the white
  space at the end goes. A line that could not be parsed makes \<^verbatim>\<open>read\<close> raise
  \<^verbatim>\<open>ParsingError\<close> at the end.
\<close>

fun join_lines :: "string list \<Rightarrow> string" where
  "join_lines [] = []"
| "join_lines [l] = l"
| "join_lines (l # ls) = l @ [newline] @ join_lines ls"

definition joined :: "(string \<times> string list) list \<Rightarrow> options" where
  "joined opts = map (\<lambda>kv. (fst kv, rstrip (join_lines (snd kv)))) opts"

definition cfg_read :: "string \<Rightarrow> exc_class + config" where
  "cfg_read text =
     (case parse_lines (file_lines (universal_newlines text)) pstate0 of
        Inl e \<Rightarrow> Inl e
      | Inr st \<Rightarrow>
          if p_error st then Inl ParsingError
          else Inr \<lparr>defaults = joined (p_defaults st),
                    sections = map (\<lambda>s. (fst s, joined (snd s))) (p_sections st)\<rparr>)"

subsection \<open>Getting a value\<close>

text \<open>
  \<^verbatim>\<open>BasicInterpolation.before_get\<close> (\<^verbatim>\<open>_interpolate_some\<close>): \<^verbatim>\<open>%%\<close> stands for a percent
  sign, \<^verbatim>\<open>%(name)s\<close> for the value of the option \<^verbatim>\<open>name\<close> of the section or of the
  default section, itself interpolated, to a depth of 10. \<open>lookup\<close> is the chain
  of the section's options and the defaults.
\<close>

function interpolate :: "(string \<Rightarrow> string option) \<Rightarrow> nat \<Rightarrow> string \<Rightarrow> exc_class + string" where
  "interpolate lookup depth rest =
     (if depth > 10 then Inl InterpolationDepthError
      else
        (case rest of
           [] \<Rightarrow> Inr []
         | c # cs \<Rightarrow>
             if c \<noteq> CHR ''%'' then
               (case interpolate lookup depth cs of
                  Inl e \<Rightarrow> Inl e
                | Inr out \<Rightarrow> Inr (c # out))
             else
               (case cs of
                  [] \<Rightarrow> Inl InterpolationSyntaxError
                | d # ds \<Rightarrow>
                    if d = CHR ''%'' then
                      (case interpolate lookup depth ds of
                         Inl e \<Rightarrow> Inl e
                       | Inr out \<Rightarrow> Inr (CHR ''%'' # out))
                    else if d = CHR ''('' then
                      (case key_match ds of
                         None \<Rightarrow> Inl InterpolationSyntaxError
                       | Some (var, rest') \<Rightarrow>
                           (case lookup var of
                              None \<Rightarrow> Inl InterpolationMissingOptionError
                            | Some v \<Rightarrow>
                                (case (if CHR ''%'' \<in> set v
                                       then interpolate lookup (depth + 1) v else Inr v) of
                                   Inl e \<Rightarrow> Inl e
                                 | Inr out1 \<Rightarrow>
                                     (case interpolate lookup depth rest' of
                                        Inl e \<Rightarrow> Inl e
                                      | Inr out2 \<Rightarrow> Inr (out1 @ out2)))))
                    else Inl InterpolationSyntaxError)))"
  by pat_completeness auto
termination
  by (relation "inv_image (less_than <*lex*> less_than)
                 (\<lambda>(lookup, depth, rest). (11 - depth, length rest))")
     (auto dest: key_match_shorter)

declare interpolate.simps [simp del]

text \<open>
  \<^verbatim>\<open>_unify_values\<close>: the options of a section over the defaults; \<open>None\<close> is
  \<^verbatim>\<open>NoSectionError\<close>.
\<close>

definition unify_values :: "config \<Rightarrow> string \<Rightarrow> (string \<Rightarrow> string option) option" where
  "unify_values cfg section =
     (case map_of (sections cfg) section of
        Some opts \<Rightarrow>
          Some (\<lambda>k. case map_of opts k of Some v \<Rightarrow> Some v | None \<Rightarrow> map_of (defaults cfg) k)
      | None \<Rightarrow> if section = ''DEFAULT'' then Some (map_of (defaults cfg)) else None)"

text \<open>
  \<^verbatim>\<open>cfg.getfloat\<close> and \<^verbatim>\<open>cfg.getint\<close> with a fallback: the fallback when the section or
  the option is missing; otherwise the interpolated value is converted, and an error of
  the interpolation or of the conversion (\<^verbatim>\<open>ValueError\<close>) leaves the call.
\<close>

definition get_conv ::
  "(string \<Rightarrow> 'a option) \<Rightarrow> config \<Rightarrow> string \<Rightarrow> string \<Rightarrow> 'a \<Rightarrow> exc_class + 'a" where
  "get_conv conv cfg section option fallback =
     (case unify_values cfg section of
        None \<Rightarrow> Inr fallback
      | Some lookup \<Rightarrow>
          (case lookup option of
             None \<Rightarrow> Inr fallback
           | Some raw \<Rightarrow>
               (case interpolate lookup 1 raw of
                  Inl e \<Rightarrow> Inl e
                | Inr v \<Rightarrow> (case conv v of None \<Rightarrow> Inl ValueError | Some x \<Rightarrow> Inr x))))"

text \<open>
  The keys of \<^verbatim>\<open>cfg[section]\<close> in the order of \<^verbatim>\<open>items()\<close>: the options of the section,
  then the defaults it does not have.
\<close>

definition proxy_keys :: "config \<Rightarrow> string \<Rightarrow> string list" where
  "proxy_keys cfg section =
     (case map_of (sections cfg) section of
        None \<Rightarrow> []
      | Some opts \<Rightarrow>
          map fst opts @ filter (\<lambda>k. k \<notin> fst ` set opts) (map fst (defaults cfg)))"

section \<open>Targets and the saved state\<close>

record Target =
  name :: string
  host :: string
  port :: int

text \<open>
  \<^verbatim>\<open>save_state\<close> builds the parser and writes it; the result is the new text of the file,
  or the exception of an assignment (the file is then left as it was). \<^verbatim>\<open>str(timeout)\<close>
  and \<^verbatim>\<open>float(s)\<close> are parameters (\<open>str_float\<close>, \<open>py_float\<close>). Opening and
  replacing the file are taken to succeed.
\<close>

definition save_state ::
  "(real \<Rightarrow> string) \<Rightarrow> real \<Rightarrow> int \<Rightarrow> int \<Rightarrow> Target list \<Rightarrow> exc_class + string" where
  "save_state str_float timeout_s max_workers_s auto_refresh ts =
     (case set_options
             [(''TIMEOUT_SECONDS'', str_float timeout_s),
              (''MAX_WORKERS'', str_int max_workers_s),
              (''AUTO_REFRESH_SECONDS'', str_int auto_refresh)] [] of
        Inl e \<Rightarrow> Inl e
      | Inr settings \<Rightarrow>
          (case set_options (map (\<lambda>t. (name t, host t @ '':'' @ str_int (port t))) ts) [] of
             Inl e \<Rightarrow> Inl e
           | Inr saved_targets \<Rightarrow>
               Inr (cfg_write \<lparr>defaults = [],
                      sections = [(''SETTINGS'', settings), (''TARGETS'', saved_targets)]\<rparr>)))"

text \<open>
  One pass of the loop of \<^verbatim>\<open>load_state\<close> over \<^verbatim>\<open>cfg["TARGETS"].items()\<close>, for a name
  and its value: \<open>None\<close> when the option is skipped.
\<close>

definition load_target :: "string \<times> string \<Rightarrow> Target option" where
  "load_target item =
     (let raw = strip (snd item) in
      if CHR '':'' \<notin> set raw then None
      else
        let host_s = strip (fst (rsplit_colon raw));
            port_str = strip (snd (rsplit_colon raw))
        in (case py_int port_str of
              None \<Rightarrow> None
            | Some port_i \<Rightarrow>
                if \<not> (1 \<le> port_i \<and> port_i \<le> 65535) then None
                else if host_s \<noteq> [] \<and> strip (fst item) \<noteq> []
                  then Some \<lparr>name = strip (fst item), host = host_s, port = port_i\<rparr>
                  else None))"

text \<open>
  The loop itself: the value of each key is fetched, which interpolates it and may raise,
  when the loop comes to it.
\<close>

fun load_targets ::
  "(string \<Rightarrow> string option) \<Rightarrow> string list \<Rightarrow> exc_class + Target list" where
  "load_targets lookup [] = Inr []"
| "load_targets lookup (k # ks) =
     (case lookup k of
        None \<Rightarrow> Inl KeyError
      | Some raw \<Rightarrow>
          (case interpolate lookup 1 raw of
             Inl e \<Rightarrow> Inl e
           | Inr v \<Rightarrow>
               (case load_targets lookup ks of
                  Inl e \<Rightarrow> Inl e
                | Inr ts \<Rightarrow>
                    (case load_target (k, v) of
                       None \<Rightarrow> Inr ts
                     | Some t \<Rightarrow> Inr (t # ts)))))"

text \<open>
  \<^verbatim>\<open>load_state\<close> on the text of the file, \<open>None\<close> when the file does not exist (the
  parser then has no section).
\<close>

definition load_config ::
  "(string \<Rightarrow> real option) \<Rightarrow> config \<Rightarrow> exc_class + (real \<times> int \<times> int \<times> Target list)" where
  "load_config py_float cfg =
     (case get_conv py_float cfg ''SETTINGS'' ''TIMEOUT_SECONDS'' 5 of
        Inl e \<Rightarrow> Inl e
      | Inr timeout_s \<Rightarrow>
     (case get_conv py_int cfg ''SETTINGS'' ''MAX_WORKERS'' 10 of
        Inl e \<Rightarrow> Inl e
      | Inr max_workers_s \<Rightarrow>
     (case get_conv py_int cfg ''SETTINGS'' ''AUTO_REFRESH_SECONDS'' 0 of
        Inl e \<Rightarrow> Inl e
      | Inr auto_refresh \<Rightarrow>
     (case (if ''TARGETS'' \<in> fst ` set (sections cfg)
            then (case unify_values cfg ''TARGETS'' of
                    None \<Rightarrow> Inr []
                  | Some lookup \<Rightarrow> load_targets lookup (proxy_keys cfg ''TARGETS''))
            else Inr []) of
        Inl e \<Rightarrow> Inl e
      | Inr ts \<Rightarrow> Inr (timeout_s, max_workers_s, auto_refresh, ts)))))"

definition load_state ::
  "(string \<Rightarrow> real option) \<Rightarrow> string option \<Rightarrow> exc_class + (real \<times> int \<times> int \<times> Target list)" where
  "load_state py_float file =
     (case file of
        None \<Rightarrow> load_config py_float \<lparr>defaults = [], sections = []\<rparr>
      | Some text \<Rightarrow>
          (case cfg_read text of
             Inl e \<Rightarrow> Inl e
           | Inr cfg \<Rightarrow> load_config py_float cfg))"

section \<open>The application state\<close>

text \<open>
  The fields of \<^verbatim>\<open>App\<close> that the operations below read or write, the Tk event queue
  (\<^verbatim>\<open>after\<close>, \<^verbatim>\<open>after_cancel\<close>) with its clock in milliseconds, and the INI file.
  A row of the table is an object with an identity (\<open>row_id\<close>); \<^verbatim>\<open>rebuild_rows\<close>
  destroys the rows and creates new ones.
\<close>

datatype row_label =
    Dash                            \<comment> \<open>the label of a new row\<close>
  | Checking                        \<comment> \<open>\<^verbatim>\<open>set_checking\<close>\<close>
  | Result string "real option"     \<comment> \<open>\<^verbatim>\<open>set_result(status, latency_ms)\<close>\<close>

record TargetRow =
  row_id :: nat
  target :: Target
  status_label :: row_label
  delete_enabled :: bool

text \<open>The callbacks handed to \<^verbatim>\<open>self.after\<close>.\<close>

datatype callback =
    AutoRefreshTick
  | ApplyResults "(nat \<times> string \<times> real option) list"
      \<comment> \<open>the closure \<^verbatim>\<open>apply_results\<close> with its list \<^verbatim>\<open>results\<close> of (row, status, latency)\<close>
  | Recover

record executor =
  pool_size :: int
  is_shutdown :: bool

record app =
  timeout :: real
  max_workers :: int
  auto_refresh_seconds :: int
  targets :: "Target list"
  rows :: "TargetRow list"
  executor :: executor
  refresh_in_progress :: bool
  auto_after_id :: "nat option"
  refresh_button_enabled :: bool
  add_btn_enabled :: bool
  settings_button_enabled :: bool
  add_dialog_open :: bool
  settings_dialog_open :: bool
  last_checked :: "string option"                     \<comment> \<open>the time shown by \<^verbatim>\<open>meta_label\<close>, if any\<close>
  worker_threads :: nat                               \<comment> \<open>worker threads started so far\<close>
  next_row_id :: nat
  now :: int                                          \<comment> \<open>the clock of the event loop, in ms\<close>
  after_queue :: "(nat \<times> int \<times> callback) list"       \<comment> \<open>pending: (id, due time, callback)\<close>
  next_after_id :: nat
  ini_file :: "string option"                        \<comment> \<open>the text of the INI file, if it exists\<close>

text \<open>\<^verbatim>\<open>self.after(ms, callback)\<close> returns the identifier of the new timer.\<close>

definition after :: "int \<Rightarrow> callback \<Rightarrow> app \<Rightarrow> nat \<times> app" where
  "after ms cb s =
     (next_after_id s,
      s\<lparr>after_queue := after_queue s @ [(next_after_id s, now s + ms, cb)],
        next_after_id := next_after_id s + 1\<rparr>)"

definition after_cancel :: "nat \<Rightarrow> app \<Rightarrow> app" where
  "after_cancel i s = s\<lparr>after_queue := filter (\<lambda>e. fst e \<noteq> i) (after_queue s)\<rparr>"

text \<open>
  \<^verbatim>\<open>persist\<close>: when \<^verbatim>\<open>save_state\<close> raises, the exception leaves \<^verbatim>\<open>persist\<close> and
  its caller (\<open>Some e\<close>, with the state as it is at that moment).
\<close>

definition persist :: "(real \<Rightarrow> string) \<Rightarrow> app \<Rightarrow> exc_class option \<times> app" where
  "persist str_float s =
     (case save_state str_float (timeout s) (max_workers s) (auto_refresh_seconds s) (targets s) of
        Inl e \<Rightarrow> (Some e, s)
      | Inr text \<Rightarrow> (None, s\<lparr>ini_file := Some text\<rparr>))"

definition new_row :: "nat \<Rightarrow> Target \<Rightarrow> TargetRow" where
  "new_row i t = \<lparr>row_id = i, target = t, status_label = Dash, delete_enabled = True\<rparr>"

definition rebuild_rows :: "app \<Rightarrow> app" where
  "rebuild_rows s =
     s\<lparr>rows := map (\<lambda>(i, t). new_row (next_row_id s + i) t) (enumerate 0 (targets s)),
       next_row_id := next_row_id s + length (targets s)\<rparr>"

definition set_editing_enabled :: "bool \<Rightarrow> app \<Rightarrow> app" where
  "set_editing_enabled enabled s =
     s\<lparr>add_btn_enabled := enabled,
       settings_button_enabled := enabled,
       rows := map (\<lambda>r. r\<lparr>delete_enabled := enabled\<rparr>) (rows s)\<rparr>"

text \<open>
  \<^verbatim>\<open>refresh_async\<close> as one thread runs it alone: the check, the check again under the
  lock, the flag, the widgets, the worker thread. Section ``Single flight'' runs the same
  steps one at a time with other callers in between.
\<close>

definition refresh_async :: "app \<Rightarrow> app" where
  "refresh_async s =
     (if refresh_in_progress s then s
      else if refresh_in_progress s then s
      else
        let s1 = s\<lparr>refresh_in_progress := True\<rparr>;
            s2 = s1\<lparr>refresh_button_enabled := False\<rparr>;
            s3 = set_editing_enabled False s2;
            s4 = s3\<lparr>rows := map (\<lambda>r. r\<lparr>status_label := Checking\<rparr>) (rows s3)\<rparr>
        in s4\<lparr>worker_threads := worker_threads s4 + 1\<rparr>)"

subsection \<open>Editing the target list\<close>


definition open_add_dialog :: "app \<Rightarrow> app" where
  "open_add_dialog s = (if refresh_in_progress s then s else s\<lparr>add_dialog_open := True\<rparr>)"

text \<open>
  The loop of \<^verbatim>\<open>add_target\<close> that looks for a free name \<^verbatim>\<open>f"{base} ({n})"\<close>. The set
  \<^verbatim>\<open>existing\<close> is given by the list of its elements.
\<close>

definition numbered :: "string \<Rightarrow> int \<Rightarrow> string" where
  "numbered base n = base @ '' ('' @ str_int n @ '')''"

text \<open>
  The loop ends because \<^verbatim>\<open>existing\<close> is finite and different numbers give different
  names; that rests on \<^verbatim>\<open>int(str(n)) == n\<close>.
\<close>

lemma is_digit_digit_char: "d < 10 \<Longrightarrow> is_digit (digit_char d)"
  by (simp add: is_digit_def digit_char_def)

lemma digit_val_digit_char: "d < 10 \<Longrightarrow> digit_val (digit_char d) = d"
  by (simp add: digit_val_def digit_char_def)

lemma not_space_digit: "is_digit c \<Longrightarrow> \<not> is_space c"
  by (auto simp: is_digit_def is_space_def)

lemma parse_digits_all_digits:
  "list_all is_digit xs \<Longrightarrow>
   parse_digits b acc (xs @ ys) =
     (if xs = [] then parse_digits b acc ys
      else parse_digits True (foldl (\<lambda>a c. a * 10 + digit_val c) acc xs) ys)"
  by (induction xs arbitrary: b acc) auto

lemma str_nat_digits:
  "list_all is_digit (str_nat n) \<and> str_nat n \<noteq> []
   \<and> foldl (\<lambda>a c. a * 10 + digit_val c) 0 (str_nat n) = n"
proof (induction n rule: str_nat.induct)
  case (1 n)
  show ?case
  proof (cases "n < 10")
    case True
    then show ?thesis
      by (simp add: str_nat.simps [of n] is_digit_digit_char digit_val_digit_char)
  next
    case False
    with 1 show ?thesis
      by (simp add: str_nat.simps [of n] is_digit_digit_char digit_val_digit_char)
  qed
qed

lemma parse_digits_str_nat: "parse_digits False 0 (str_nat n) = Some n"
  using parse_digits_all_digits [of "str_nat n" False 0 "[]"] str_nat_digits [of n]
  by simp

lemma strip_id:
  assumes "s \<noteq> []" "\<not> is_space (hd s)" "\<not> is_space (last s)"
  shows "strip s = s"
proof -
  have "dropWhile is_space s = s"
    using assms by (cases s) auto
  moreover have "dropWhile is_space (rev s) = rev s"
    using assms by (cases "rev s") (auto simp: last_rev hd_rev)
  ultimately show ?thesis
    by (simp add: strip_def)
qed

lemma str_nat_hd_last: "is_digit (hd (str_nat n)) \<and> is_digit (last (str_nat n))"
  using str_nat_digits [of n]
  by (cases "str_nat n") (auto simp: list_all_iff)

lemma strip_str_int: "strip (str_int i) = str_int i"
proof (rule strip_id)
  show "str_int i \<noteq> []"
    using str_nat_digits by (simp add: str_int_def)
  have "\<not> is_space (CHR ''-'')"
    by (simp add: is_space_def)
  then show "\<not> is_space (hd (str_int i))"
    using str_nat_hd_last [of "nat i"] by (simp add: str_int_def not_space_digit)
  show "\<not> is_space (last (str_int i))"
    using str_nat_hd_last [of "nat i"] str_nat_hd_last [of "nat (- i)"] str_nat_digits [of "nat (- i)"]
    by (simp add: str_int_def not_space_digit)
qed

lemma int_space_is_space: "is_int_space c \<Longrightarrow> is_space c"
  by (auto simp: is_int_space_def is_space_def)

lemma int_strip_str_int:
  "rev (dropWhile is_int_space (rev (dropWhile is_int_space (str_int i)))) = str_int i"
proof -
  have ne: "str_int i \<noteq> []"
    using str_nat_digits by (simp add: str_int_def)
  have "\<not> is_space (CHR ''-'')"
    by (simp add: is_space_def)
  then have "\<not> is_space (hd (str_int i))"
    using str_nat_hd_last [of "nat i"] by (simp add: str_int_def not_space_digit)
  then have h: "\<not> is_int_space (hd (str_int i))"
    using int_space_is_space by blast
  have "\<not> is_space (last (str_int i))"
    using str_nat_hd_last [of "nat i"] str_nat_hd_last [of "nat (- i)"] str_nat_digits [of "nat (- i)"]
    by (simp add: str_int_def not_space_digit)
  then have l: "\<not> is_int_space (last (str_int i))"
    using int_space_is_space by blast
  have "dropWhile is_int_space (str_int i) = str_int i"
    using ne h by (cases "str_int i") auto
  moreover have "dropWhile is_int_space (rev (str_int i)) = rev (str_int i)"
    using ne l by (cases "rev (str_int i)") (auto simp: last_rev hd_rev)
  ultimately show ?thesis
    by simp
qed

lemma py_int_str_int: "py_int (str_int i) = Some i"
proof (cases "i < 0")
  case True
  then show ?thesis
    by (simp add: py_int_def int_strip_str_int) (simp add: str_int_def parse_digits_str_nat)
next
  case False
  obtain c cs where cs: "str_nat (nat i) = c # cs"
    using str_nat_digits [of "nat i"] by (cases "str_nat (nat i)") auto
  then have "is_digit c"
    using str_nat_digits [of "nat i"] by simp
  then have "c \<noteq> CHR ''-''" "c \<noteq> CHR ''+''"
    by (auto simp: is_digit_def)
  with False cs show ?thesis
    using parse_digits_str_nat [of "nat i"]
    by (simp add: py_int_def int_strip_str_int) (simp add: str_int_def)
qed

lemma str_int_inj: "str_int a = str_int b \<Longrightarrow> a = b"
proof -
  assume "str_int a = str_int b"
  then have "py_int (str_int a) = py_int (str_int b)"
    by (rule arg_cong)
  then show "a = b"
    by (simp only: py_int_str_int option.inject)
qed

lemma numbered_inj: "numbered base m = numbered base n \<Longrightarrow> m = n"
  by (simp add: numbered_def str_int_inj)

lemma finite_numbered: "finite {m. n \<le> m \<and> numbered base m \<in> set existing}"
proof -
  have "inj (numbered base)"
    by (rule injI) (rule numbered_inj)
  then have "finite (numbered base -` set existing)"
    by (intro finite_vimageI) simp_all
  then show ?thesis
    by (rule rev_finite_subset) auto
qed

function next_free :: "string list \<Rightarrow> string \<Rightarrow> int \<Rightarrow> int" where
  "next_free existing base n =
     (if numbered base n \<in> set existing then next_free existing base (n + 1) else n)"
  by pat_completeness auto
termination
proof (relation "measure (\<lambda>(existing, base, n). card {m. n \<le> m \<and> numbered base m \<in> set existing})")
  show "wf (measure (\<lambda>(existing, base, n). card {m. n \<le> m \<and> numbered base m \<in> set existing}))"
    by simp
next
  fix existing :: "string list" and base :: string and n :: int
  assume taken: "numbered base n \<in> set existing"
  have "n \<in> {m. n \<le> m \<and> numbered base m \<in> set existing}"
    and "n \<notin> {m. n + 1 \<le> m \<and> numbered base m \<in> set existing}"
    and "{m. n + 1 \<le> m \<and> numbered base m \<in> set existing}
      \<subseteq> {m. n \<le> m \<and> numbered base m \<in> set existing}"
    using taken by auto
  then have "{m. n + 1 \<le> m \<and> numbered base m \<in> set existing}
      \<subset> {m. n \<le> m \<and> numbered base m \<in> set existing}"
    by blast
  then have "card {m. n + 1 \<le> m \<and> numbered base m \<in> set existing}
      < card {m. n \<le> m \<and> numbered base m \<in> set existing}"
    by (rule psubset_card_mono [OF finite_numbered])
  then show "((existing, base, n + 1), (existing, base, n))
      \<in> measure (\<lambda>(existing, base, n). card {m. n \<le> m \<and> numbered base m \<in> set existing})"
    by simp
qed

declare next_free.simps [simp del]

definition add_target ::
  "(real \<Rightarrow> string) \<Rightarrow> Target \<Rightarrow> app \<Rightarrow> exc_class option \<times> app" where
  "add_target str_float t s =
     (let existing = map name (targets s);
          base = name t;
          t' = (if base \<in> set existing
                then t\<lparr>name := numbered base (next_free existing base 2)\<rparr>
                else t);
          s1 = s\<lparr>targets := targets s @ [t']\<rparr>
      in (case persist str_float s1 of
            (Some e, s2) \<Rightarrow> (Some e, s2)
          | (None, s2) \<Rightarrow> (None, refresh_async (rebuild_rows s2))))"

subsection \<open>Settings and the auto-refresh timer\<close>

definition schedule_auto_refresh :: "app \<Rightarrow> app" where
  "schedule_auto_refresh s =
     (let s1 = (case auto_after_id s of
                  None \<Rightarrow> s
                | Some i \<Rightarrow> (after_cancel i s)\<lparr>auto_after_id := None\<rparr>)
      in if auto_refresh_seconds s1 \<noteq> 0 \<and> auto_refresh_seconds s1 > 0
         then (case after (auto_refresh_seconds s1 * 1000) AutoRefreshTick s1 of
                 (i, s2) \<Rightarrow> s2\<lparr>auto_after_id := Some i\<rparr>)
         else s1)"

definition auto_refresh_tick :: "app \<Rightarrow> app" where
  "auto_refresh_tick s = schedule_auto_refresh (refresh_async s)"

definition open_settings :: "app \<Rightarrow> app" where
  "open_settings s = (if refresh_in_progress s then s else s\<lparr>settings_dialog_open := True\<rparr>)"

text \<open>
  \<^verbatim>\<open>apply_settings\<close>. When the number of workers changes the old pool is shut down and
  \<^verbatim>\<open>ThreadPoolExecutor(max_workers)\<close> makes the new one, which raises \<^verbatim>\<open>ValueError\<close>
  for a number below 1; \<^verbatim>\<open>persist\<close> may raise; either exception leaves
  \<^verbatim>\<open>apply_settings\<close> at that point.
\<close>

definition apply_settings ::
  "(real \<Rightarrow> string) \<Rightarrow> real \<Rightarrow> int \<Rightarrow> int \<Rightarrow> app \<Rightarrow> exc_class option \<times> app" where
  "apply_settings str_float timeout_new max_workers_new auto_refresh s =
     (let old_workers = max_workers s;
          s1 = s\<lparr>timeout := timeout_new, max_workers := max_workers_new,
                 auto_refresh_seconds := auto_refresh\<rparr>
      in if max_workers s1 \<noteq> old_workers \<and> max_workers s1 \<le> 0
         then (Some ValueError, s1\<lparr>executor := (executor s1)\<lparr>is_shutdown := True\<rparr>\<rparr>)
         else
           let s2 = (if max_workers s1 \<noteq> old_workers
                     then s1\<lparr>executor := \<lparr>pool_size = max_workers s1, is_shutdown = False\<rparr>\<rparr>
                     else s1)
           in (case persist str_float s2 of
                 (Some e, s3) \<Rightarrow> (Some e, s3)
               | (None, s3) \<Rightarrow> (None, refresh_async (schedule_auto_refresh s3))))"

subsection \<open>The worker thread\<close>

text \<open>
  A future is known by its identity and by the arguments of the call that was submitted;
  \<^verbatim>\<open>futures\<close> maps each future to a row (a reference, here the row's identity). What a
  future yields is the world's business: the probe runs \<open>check_tcp_open\<close> on the
  submitted arguments, unless the future was cancelled before it ran.
\<close>

record future =
  fut_id :: nat
  fut_host :: string
  fut_port :: int
  fut_timeout :: real

record world =
  connect :: socket_lib
  probe_start :: "nat \<Rightarrow> real"     \<comment> \<open>the first clock reading of each probe\<close>
  cancelled :: "nat \<Rightarrow> bool"

definition future_result :: "world \<Rightarrow> future \<Rightarrow> exc_class + (string \<times> real option)" where
  "future_result w fut =
     (if cancelled w (fut_id fut) then Inl CancelledError
      else check_tcp_open (probe_start w (fut_id fut)) (connect w)
             (fut_host fut) (fut_port fut) (fut_timeout fut))"

text \<open>The first loop of \<^verbatim>\<open>_refresh_worker\<close>, over \<^verbatim>\<open>list(self.rows)\<close>.\<close>

fun submit_all ::
  "app \<Rightarrow> TargetRow list \<Rightarrow> (future \<times> nat) list \<Rightarrow> exc_class + (future \<times> nat) list" where
  "submit_all s [] futures = Inr futures"
| "submit_all s (row # rest) futures =
     (let t = target row in
      if is_shutdown (executor s) then Inl RuntimeError
      else
        let fut = \<lparr>fut_id = length futures, fut_host = host t, fut_port = port t,
                   fut_timeout = timeout s\<rparr>
        in submit_all s rest (futures @ [(fut, row_id row)]))"

text \<open>
  The second loop, over \<^verbatim>\<open>as_completed(futures)\<close>: the futures in the order in which
  they complete, which the world decides.
\<close>

fun collect ::
  "world \<Rightarrow> (future \<times> nat) list \<Rightarrow> future list \<Rightarrow> (nat \<times> string \<times> real option) list
     \<Rightarrow> exc_class + (nat \<times> string \<times> real option) list" where
  "collect w futures [] results = Inr results"
| "collect w futures (fut # rest) results =
     (case map_of futures fut of
        None \<Rightarrow> Inl KeyError
      | Some row \<Rightarrow>
          (case future_result w fut of
             Inl e \<Rightarrow> Inl e
           | Inr (status, latency) \<Rightarrow> collect w futures rest (results @ [(row, status, latency)])))"

definition worker_submit :: "app \<Rightarrow> exc_class + (future \<times> nat) list" where
  "worker_submit s = submit_all s (rows s) []"

definition worker_outcome ::
  "world \<Rightarrow> ((future \<times> nat) list \<Rightarrow> future list) \<Rightarrow> exc_class + (future \<times> nat) list
     \<Rightarrow> callback" where
  "worker_outcome w as_completed submitted =
     (case submitted of
        Inl e \<Rightarrow> Recover
      | Inr futures \<Rightarrow>
          (case collect w futures (as_completed futures) [] of
             Inl e \<Rightarrow> Recover
           | Inr results \<Rightarrow> ApplyResults results))"

text \<open>
  The worker hands its callback to the event loop when the last future is done; the
  application may have changed in between, so the state at that moment is an argument of
  its own. \<open>refresh_worker\<close> is the worker running with nothing in between.
\<close>

definition worker_finish ::
  "world \<Rightarrow> ((future \<times> nat) list \<Rightarrow> future list) \<Rightarrow> exc_class + (future \<times> nat) list
     \<Rightarrow> app \<Rightarrow> app" where
  "worker_finish w as_completed submitted s =
     snd (after 0 (worker_outcome w as_completed submitted) s)"

definition refresh_worker ::
  "world \<Rightarrow> ((future \<times> nat) list \<Rightarrow> future list) \<Rightarrow> app \<Rightarrow> app" where
  "refresh_worker w as_completed s = worker_finish w as_completed (worker_submit s) s"

subsection \<open>The callbacks on the event loop\<close>

definition recover :: "app \<Rightarrow> app" where
  "recover s =
     (set_editing_enabled True (s\<lparr>refresh_button_enabled := True\<rparr>))\<lparr>refresh_in_progress := False\<rparr>"

text \<open>
  \<^verbatim>\<open>apply_results\<close>: a row that \<^verbatim>\<open>rebuild_rows\<close> destroyed in the meantime makes
  \<^verbatim>\<open>set_result\<close> raise, and the callback stops there (\<open>Some e\<close> with the state reached).
\<close>

fun set_results ::
  "(nat \<times> string \<times> real option) list \<Rightarrow> TargetRow list \<Rightarrow> exc_class option \<times> TargetRow list" where
  "set_results [] rs = (None, rs)"
| "set_results ((row, status, latency) # rest) rs =
     (if row \<in> row_id ` set rs
      then set_results rest
             (map (\<lambda>r. if row_id r = row then r\<lparr>status_label := Result status latency\<rparr> else r) rs)
      else (Some TclError, rs))"

definition apply_results ::
  "string \<Rightarrow> (nat \<times> string \<times> real option) list \<Rightarrow> app \<Rightarrow> exc_class option \<times> app" where
  "apply_results stamp results s =
     (case set_results results (rows s) of
        (Some e, rs) \<Rightarrow> (Some e, s\<lparr>rows := rs\<rparr>)
      | (None, rs) \<Rightarrow>
          (None,
           (set_editing_enabled True
              (s\<lparr>rows := rs, last_checked := Some stamp, refresh_button_enabled := True\<rparr>))
            \<lparr>refresh_in_progress := False\<rparr>))"

definition run_callback :: "string \<Rightarrow> callback \<Rightarrow> app \<Rightarrow> exc_class option \<times> app" where
  "run_callback stamp cb s =
     (case cb of
        AutoRefreshTick \<Rightarrow> (None, auto_refresh_tick s)
      | ApplyResults results \<Rightarrow> apply_results stamp results s
      | Recover \<Rightarrow> (None, recover s))"

text \<open>
  The event loop runs the timer \<open>i\<close> when it is due: the timer leaves the queue, then its
  callback runs. \<open>stamp\<close> is what \<^verbatim>\<open>time.strftime\<close> gives at that moment.
\<close>

definition fire :: "string \<Rightarrow> nat \<Rightarrow> app \<Rightarrow> exc_class option \<times> app" where
  "fire stamp i s =
     (case find (\<lambda>e. fst e = i) (after_queue s) of
        None \<Rightarrow> (None, s)
      | Some (j, due, cb) \<Rightarrow>
          if due \<le> now s then run_callback stamp cb (after_cancel i s) else (None, s))"

definition advance :: "int \<Rightarrow> app \<Rightarrow> app" where
  "advance ms s = s\<lparr>now := now s + ms\<rparr>"

subsection \<open>Start-up\<close>

text \<open>
  \<^verbatim>\<open>App.__init__\<close>: the fields as they are set from the loaded state (\<open>fresh_app\<close>),
  then the rows, the first scan and the timer. \<^verbatim>\<open>ThreadPoolExecutor\<close> raises
  \<^verbatim>\<open>ValueError\<close> for a number of workers below 1.
\<close>

definition fresh_app :: "real \<Rightarrow> int \<Rightarrow> int \<Rightarrow> Target list \<Rightarrow> string option \<Rightarrow> app" where
  "fresh_app timeout_s max_workers_s auto_refresh ts file =
     \<lparr>timeout = timeout_s, max_workers = max_workers_s, auto_refresh_seconds = auto_refresh,
      targets = ts, rows = [],
      executor = \<lparr>pool_size = max_workers_s, is_shutdown = False\<rparr>,
      refresh_in_progress = False, auto_after_id = None,
      refresh_button_enabled = True, add_btn_enabled = True,
      settings_button_enabled = True, add_dialog_open = False,
      settings_dialog_open = False, last_checked = None,
      worker_threads = 0, next_row_id = 0, now = 0, after_queue = [],
      next_after_id = 0, ini_file = file\<rparr>"

definition app_init :: "(string \<Rightarrow> real option) \<Rightarrow> string option \<Rightarrow> exc_class + app" where
  "app_init py_float file =
     (case load_state py_float file of
        Inl e \<Rightarrow> Inl e
      | Inr (timeout_s, max_workers_s, auto_refresh, ts) \<Rightarrow>
          if max_workers_s \<le> 0 then Inl ValueError
          else
            Inr (schedule_auto_refresh (refresh_async (rebuild_rows
                   (fresh_app timeout_s max_workers_s auto_refresh ts file)))))"

text \<open>
  The pending auto-refresh timers, as (identifier, due time), and what ties the queue to
  \<^verbatim>\<open>_auto_after_id\<close>: a pending auto-refresh timer is the one the application remembers.
\<close>

definition auto_timers :: "app \<Rightarrow> (nat \<times> int) list" where
  "auto_timers s =
     map (\<lambda>e. (fst e, fst (snd e))) (filter (\<lambda>e. snd (snd e) = AutoRefreshTick) (after_queue s))"

definition timer_inv :: "app \<Rightarrow> bool" where
  "timer_inv s =
     (\<forall>e \<in> set (after_queue s). snd (snd e) = AutoRefreshTick \<longrightarrow> auto_after_id s = Some (fst e))"

text \<open>The future that the worker submits as number \<open>i\<close> for a row.\<close>

definition submitted_future :: "app \<Rightarrow> nat \<Rightarrow> TargetRow \<Rightarrow> future" where
  "submitted_future s i row =
     \<lparr>fut_id = i, fut_host = host (target row), fut_port = port (target row), fut_timeout = timeout s\<rparr>"

section \<open>Single flight: \<^verbatim>\<open>refresh_async\<close> under interleaving\<close>

text \<open>
  Any number of calls of \<^verbatim>\<open>refresh_async\<close> (the Refresh button, the auto-refresh tick,
  \<^verbatim>\<open>apply_settings\<close>, \<^verbatim>\<open>add_target\<close>, the start-up) run against the one flag
  \<^verbatim>\<open>refresh_in_progress\<close> and the one lock \<^verbatim>\<open>refresh_lock\<close>. Each call is at one of
  the following places; a step of a call is one read or write of the flag or one operation
  of the lock, and a schedule says which call takes the next step.
\<close>

datatype call_pc =
    Idle0           \<comment> \<open>not called yet: the next step is the check before the lock\<close>
  | Acquire         \<comment> \<open>the first check passed: waits for the lock\<close>
  | Check           \<comment> \<open>holds the lock: the next step is the check under the lock\<close>
  | SetFlag         \<comment> \<open>holds the lock, saw the flag down: the next step sets it\<close>
  | ReleaseReturn   \<comment> \<open>holds the lock, saw the flag up: leaves the block and returns\<close>
  | Release         \<comment> \<open>holds the lock, has set the flag: leaves the block\<close>
  | Start           \<comment> \<open>disables the widgets and starts the worker thread\<close>
  | Scanning        \<comment> \<open>its worker runs; the callback of the worker will reset the flag\<close>
  | Returned        \<comment> \<open>returned without any effect\<close>
  | Done            \<comment> \<open>its scan is over: \<^verbatim>\<open>apply_results\<close> or \<^verbatim>\<open>recover\<close> has reset the flag\<close>

record sf_state =
  in_progress :: bool                 \<comment> \<open>\<^verbatim>\<open>self.refresh_in_progress\<close>\<close>
  lock_holder :: "nat option"          \<comment> \<open>who holds \<^verbatim>\<open>self.refresh_lock\<close>\<close>
  pc_of :: "nat \<Rightarrow> call_pc"

definition sf_init :: sf_state where
  "sf_init = \<lparr>in_progress = False, lock_holder = None, pc_of = (\<lambda>_. Idle0)\<rparr>"

definition sf_step :: "nat \<Rightarrow> sf_state \<Rightarrow> sf_state" where
  "sf_step i s =
     (case pc_of s i of
        Idle0 \<Rightarrow>
          if in_progress s then s\<lparr>pc_of := (pc_of s)(i := Returned)\<rparr>
          else s\<lparr>pc_of := (pc_of s)(i := Acquire)\<rparr>
      | Acquire \<Rightarrow>
          if lock_holder s = None
          then s\<lparr>lock_holder := Some i, pc_of := (pc_of s)(i := Check)\<rparr>
          else s
      | Check \<Rightarrow>
          if in_progress s then s\<lparr>pc_of := (pc_of s)(i := ReleaseReturn)\<rparr>
          else s\<lparr>pc_of := (pc_of s)(i := SetFlag)\<rparr>
      | SetFlag \<Rightarrow> s\<lparr>in_progress := True, pc_of := (pc_of s)(i := Release)\<rparr>
      | ReleaseReturn \<Rightarrow> s\<lparr>lock_holder := None, pc_of := (pc_of s)(i := Returned)\<rparr>
      | Release \<Rightarrow> s\<lparr>lock_holder := None, pc_of := (pc_of s)(i := Start)\<rparr>
      | Start \<Rightarrow> s\<lparr>pc_of := (pc_of s)(i := Scanning)\<rparr>
      | Scanning \<Rightarrow> s\<lparr>in_progress := False, pc_of := (pc_of s)(i := Done)\<rparr>
      | Returned \<Rightarrow> s
      | Done \<Rightarrow> s)"

fun sf_run :: "sf_state \<Rightarrow> nat list \<Rightarrow> sf_state" where
  "sf_run s [] = s"
| "sf_run s (i # schedule) = sf_run (sf_step i s) schedule"

text \<open>A call has a scan session of its own from the moment it sets the flag until the flag is reset.\<close>

fun in_session :: "call_pc \<Rightarrow> bool" where
  "in_session Release = True"
| "in_session Start = True"
| "in_session Scanning = True"
| "in_session _ = False"

fun holds_lock :: "call_pc \<Rightarrow> bool" where
  "holds_lock Check = True"
| "holds_lock SetFlag = True"
| "holds_lock ReleaseReturn = True"
| "holds_lock Release = True"
| "holds_lock _ = False"

text \<open>
  What holds in every state the calls can reach: only the holder of the lock is inside
  the block, the flag is up exactly while some call has a session, a call that is about to
  set the flag has seen it down, and no two calls have a session.
\<close>

definition sf_inv :: "sf_state \<Rightarrow> bool" where
  "sf_inv s =
     ((\<forall>i. holds_lock (pc_of s i) \<longrightarrow> lock_holder s = Some i)
      \<and> (\<forall>i. in_session (pc_of s i) \<longrightarrow> in_progress s)
      \<and> (\<forall>i. pc_of s i = SetFlag \<longrightarrow> \<not> in_progress s)
      \<and> (in_progress s \<longrightarrow> (\<exists>i. in_session (pc_of s i)))
      \<and> (\<forall>i j. in_session (pc_of s i) \<and> in_session (pc_of s j) \<longrightarrow> i = j))"

section \<open>Concrete instances\<close>

text \<open>
  A world in which the local port refuses, \<^verbatim>\<open>example.com\<close> accepts after 2.5 s and
  no other name resolves; a world in which the host name \<^verbatim>\<open>a..b\<close> cannot be encoded;
  \<^verbatim>\<open>str\<close> and \<^verbatim>\<open>float\<close> on the two timeouts the instances use; futures that complete
  in the reverse order of their submission. A running scan of three targets, one on a closed local port, one with a name that does
  not resolve and one that accepts; and a running scan with a target whose host name cannot be encoded, so that
  its probe raises \<^verbatim>\<open>UnicodeError\<close>.
\<close>

definition demo_world :: world where
  "demo_world =
     \<lparr>connect = (\<lambda>h p t. if h = ''127.0.0.1'' then ConnectRaises ConnectionRefusedError
                          else if h = ''example.com'' then Connected 2.5
                          else ConnectRaises gaierror),
      probe_start = (\<lambda>_. 0),
      cancelled = (\<lambda>_. False)\<rparr>"


definition idna_world :: world where
  "idna_world =
     \<lparr>connect = (\<lambda>h p t. if h = ''a..b'' then ConnectRaises UnicodeError
                          else ConnectRaises ConnectionRefusedError),
      probe_start = (\<lambda>_. 0),
      cancelled = (\<lambda>_. False)\<rparr>"

definition idna_app :: app where
  "idna_app =
     refresh_async (rebuild_rows (fresh_app 1 10 0
       [\<lparr>name = ''web'', host = ''127.0.0.1'', port = 9\<rparr>,
        \<lparr>name = ''odd'', host = ''a..b'', port = 80\<rparr>] None))"


definition demo_str_float :: "real \<Rightarrow> string" where
  "demo_str_float x = (if x = 1 then ''1.0'' else ''5.0'')"

definition demo_py_float :: "string \<Rightarrow> real option" where
  "demo_py_float s = (if s = ''1.0'' then Some 1 else if s = ''5.0'' then Some 5 else None)"

definition reversed_completion :: "(future \<times> nat) list \<Rightarrow> future list" where
  "reversed_completion futures = rev (map fst futures)"

text \<open>
  An idle application that refreshes every five seconds, to which the target
  \<^verbatim>\<open>fe80::1%eth0\<close> (a link-local address with its zone) has been added.
\<close>

definition zone_target :: Target where
  "zone_target = \<lparr>name = ''lan'', host = ''fe80::1%eth0'', port = 22\<rparr>"

definition timer_app :: app where
  "timer_app = schedule_auto_refresh (rebuild_rows (fresh_app 5 10 5 [] None))"

definition zone_app :: app where
  "zone_app = snd (add_target demo_str_float zone_target timer_app)"

text \<open>
  An application with two targets that refreshes every five seconds. The user opens the
  dialog for a new target while no scan runs (\<open>dialog_app\<close>); at five seconds the timer
  fires and a scan starts (\<open>scanning_app\<close>); the user then submits the dialog, which
  calls \<^verbatim>\<open>add_target\<close> (\<open>edited_app\<close>); the worker of the scan, which took its rows
  before that, finishes afterwards (\<open>finished_app\<close>).
\<close>

definition dialog_app :: app where
  "dialog_app =
     open_add_dialog (schedule_auto_refresh (rebuild_rows (fresh_app 1 10 5
       [\<lparr>name = ''web'', host = ''127.0.0.1'', port = 9\<rparr>,
        \<lparr>name = ''site'', host = ''example.com'', port = 443\<rparr>] None)))"

definition scanning_app :: app where
  "scanning_app = snd (fire ''12:00:05'' 0 (advance 5000 dialog_app))"

definition edited_app :: app where
  "edited_app =
     snd (add_target demo_str_float \<lparr>name = ''new'', host = ''10.0.0.9'', port = 22\<rparr> scanning_app)"

definition finished_app :: app where
  "finished_app = worker_finish demo_world reversed_completion (worker_submit scanning_app) edited_app"

section \<open>What the operations leave alone\<close>

lemma persist_cases:
  obtains (raises) e where "persist f s = (Some e, s)"
        | (saves) saved where "persist f s = (None, s\<lparr>ini_file := Some saved\<rparr>)"
proof (cases "save_state f (timeout s) (max_workers s) (auto_refresh_seconds s) (targets s)")
  case (Inl e)
  then have "persist f s = (Some e, s)"
    by (simp add: persist_def)
  then show ?thesis
    by (rule raises)
next
  case (Inr saved)
  then have "persist f s = (None, s\<lparr>ini_file := Some saved\<rparr>)"
    by (simp add: persist_def)
  then show ?thesis
    by (rule saves)
qed

lemma targets_rebuild_rows: "targets (rebuild_rows s) = targets s"
  by (simp add: rebuild_rows_def)

lemma targets_set_editing_enabled: "targets (set_editing_enabled b s) = targets s"
  by (simp add: set_editing_enabled_def)

lemma targets_refresh_async: "targets (refresh_async s) = targets s"
  by (simp add: refresh_async_def Let_def targets_set_editing_enabled)


lemma after_queue_set_editing_enabled: "after_queue (set_editing_enabled b s) = after_queue s"
  by (simp add: set_editing_enabled_def)

lemma after_queue_refresh_async: "after_queue (refresh_async s) = after_queue s"
  by (simp add: refresh_async_def Let_def after_queue_set_editing_enabled)

lemma auto_after_id_refresh_async: "auto_after_id (refresh_async s) = auto_after_id s"
  by (simp add: refresh_async_def Let_def set_editing_enabled_def)

lemma now_refresh_async: "now (refresh_async s) = now s"
  by (simp add: refresh_async_def Let_def set_editing_enabled_def)

lemma next_after_id_refresh_async: "next_after_id (refresh_async s) = next_after_id s"
  by (simp add: refresh_async_def Let_def set_editing_enabled_def)

lemma auto_refresh_seconds_refresh_async: "auto_refresh_seconds (refresh_async s) = auto_refresh_seconds s"
  by (simp add: refresh_async_def Let_def set_editing_enabled_def)

lemma auto_timers_refresh_async: "auto_timers (refresh_async s) = auto_timers s"
  by (simp add: auto_timers_def after_queue_refresh_async)

lemma timer_inv_refresh_async: "timer_inv (refresh_async s) = timer_inv s"
  by (simp add: timer_inv_def after_queue_refresh_async auto_after_id_refresh_async)

section \<open>Properties of the probe\<close>

text \<open>
  What the handlers of the probe cover: whenever the connection attempt succeeds or raises
  an \<^verbatim>\<open>OSError\<close> (of any subclass), the probe returns one of the five statuses, and
  the status follows the failure.
\<close>

lemma check_tcp_open_classifies:
  assumes "\<And>e. create_connection h p timeout_seconds = ConnectRaises e \<Longrightarrow> isinstance e OSError"
  shows "\<exists>status latency.
      check_tcp_open start create_connection h p timeout_seconds = Inr (status, latency)
      \<and> status \<in> {''OPEN'', ''CLOSED'', ''TIMEOUT'', ''DNS_FAIL'', ''ERROR''}
      \<and> (status = ''OPEN'') = (\<exists>now. create_connection h p timeout_seconds = Connected now)
      \<and> (status = ''DNS_FAIL'') = (create_connection h p timeout_seconds = ConnectRaises gaierror)
      \<and> (status = ''TIMEOUT'') = (create_connection h p timeout_seconds = ConnectRaises TimeoutError)
      \<and> (status = ''CLOSED'') = (create_connection h p timeout_seconds = ConnectRaises ConnectionRefusedError)
      \<and> (status = ''ERROR'') = (create_connection h p timeout_seconds = ConnectRaises OSError)"
proof (cases "create_connection h p timeout_seconds")
  case (Connected now)
  then show ?thesis
    by (simp add: check_tcp_open_def)
next
  case (ConnectRaises e)
  with assms have "isinstance e OSError"
    by simp
  with ConnectRaises show ?thesis
    by (cases e) (simp_all add: check_tcp_open_def)
qed

text \<open>
  C3 says that no exception leaves the probe, for every host. The handlers catch
  \<^verbatim>\<open>socket.gaierror\<close>, \<^verbatim>\<open>TimeoutError\<close> and \<^verbatim>\<open>OSError\<close>, and nothing else. For the
  host \<^verbatim>\<open>a..b\<close>, port 80 and a timeout of one second, \<^verbatim>\<open>socket.create_connection\<close>
  raises \<^verbatim>\<open>UnicodeError\<close> (the empty label cannot be encoded), which is a
  \<^verbatim>\<open>ValueError\<close> and no \<^verbatim>\<open>OSError\<close>: the exception leaves \<^verbatim>\<open>check_tcp_open\<close>, and
  none of the five outcomes is returned.
\<close>

theorem check_tcp_open_propagates:
  "connect idna_world ''a..b'' 80 1 = ConnectRaises UnicodeError
   \<and> \<not> isinstance UnicodeError OSError
   \<and> check_tcp_open 0 (connect idna_world) ''a..b'' 80 1 = Inl UnicodeError"
  by (simp add: check_tcp_open_def idna_world_def)



section \<open>Adding a target\<close>

lemma next_free_spec:
  "n \<le> next_free existing base n
   \<and> numbered base (next_free existing base n) \<notin> set existing
   \<and> (\<forall>m. n \<le> m \<and> m < next_free existing base n \<longrightarrow> numbered base m \<in> set existing)"
proof (induction existing base n rule: next_free.induct)
  case (1 existing base n)
  show ?case
  proof (cases "numbered base n \<in> set existing")
    case True
    have step: "next_free existing base n = next_free existing base (n + 1)"
      using True by (simp add: next_free.simps [of existing base n])
    have ih: "n + 1 \<le> next_free existing base (n + 1)
      \<and> numbered base (next_free existing base (n + 1)) \<notin> set existing
      \<and> (\<forall>m. n + 1 \<le> m \<and> m < next_free existing base (n + 1) \<longrightarrow> numbered base m \<in> set existing)"
      using 1 True by simp
    have "\<forall>m. n \<le> m \<and> m < next_free existing base (n + 1) \<longrightarrow> numbered base m \<in> set existing"
    proof (intro allI impI)
      fix m assume m: "n \<le> m \<and> m < next_free existing base (n + 1)"
      show "numbered base m \<in> set existing"
      proof (cases "m = n")
        case True
        with \<open>numbered base n \<in> set existing\<close> show ?thesis by simp
      next
        case False
        with m have "n + 1 \<le> m" by simp
        with ih m show ?thesis by blast
      qed
    qed
    with ih show ?thesis
      unfolding step by simp
  next
    case False
    then have "next_free existing base n = n"
      by (simp add: next_free.simps [of existing base n])
    with False show ?thesis
      by auto
  qed
qed

lemma targets_add_target:
  "targets (snd (add_target str_float t s))
     = targets s @ [if name t \<in> set (map name (targets s))
                    then t\<lparr>name := numbered (name t) (next_free (map name (targets s)) (name t) 2)\<rparr>
                    else t]"
proof -
  define t' where "t' = (if name t \<in> set (map name (targets s))
       then t\<lparr>name := numbered (name t) (next_free (map name (targets s)) (name t) 2)\<rparr> else t)"
  show ?thesis
  proof (cases str_float "s\<lparr>targets := targets s @ [t']\<rparr>" rule: persist_cases)
    case (raises e)
    then show ?thesis
      unfolding add_target_def Let_def t'_def by simp
  next
    case (saves saved)
    then show ?thesis
      unfolding add_target_def Let_def t'_def
      by (simp add: targets_refresh_async targets_rebuild_rows)
  qed
qed

text \<open>
  C9: when the names of the targets are pairwise distinct they are still so after
  \<^verbatim>\<open>add_target\<close>. The new target goes to the end of the list with its host and port;
  it keeps its name when no target has it, and otherwise is renamed to
  \<^verbatim>\<open>name (n)\<close> for the smallest \<open>n \<ge> 2\<close> that no target has. (The list is extended
  before the state is saved, so this holds also when saving raises.)
\<close>

theorem add_target_names:
  assumes "distinct (map name (targets s))"
  shows "distinct (map name (targets (snd (add_target str_float t s))))
    \<and> (\<exists>t'. targets (snd (add_target str_float t s)) = targets s @ [t']
          \<and> host t' = host t \<and> port t' = port t
          \<and> (if name t \<in> name ` set (targets s)
              then \<exists>n\<ge>2. name t' = numbered (name t) n
                     \<and> numbered (name t) n \<notin> name ` set (targets s)
                     \<and> (\<forall>m. 2 \<le> m \<and> m < n \<longrightarrow> numbered (name t) m \<in> name ` set (targets s))
              else name t' = name t))"
proof (cases "name t \<in> name ` set (targets s)")
  case True
  define n where "n = next_free (map name (targets s)) (name t) 2"
  have spec: "2 \<le> n" "numbered (name t) n \<notin> name ` set (targets s)"
    "\<forall>m. 2 \<le> m \<and> m < n \<longrightarrow> numbered (name t) m \<in> name ` set (targets s)"
    using next_free_spec [of 2 "map name (targets s)" "name t"] by (simp_all add: n_def)
  have tg: "targets (snd (add_target str_float t s)) = targets s @ [t\<lparr>name := numbered (name t) n\<rparr>]"
    using True by (simp add: targets_add_target n_def)
  show ?thesis
    using True assms spec unfolding tg by auto
next
  case False
  have tg: "targets (snd (add_target str_float t s)) = targets s @ [t]"
    using False by (simp add: targets_add_target)
  show ?thesis
    using False assms unfolding tg by auto
qed

theorem add_target_names_witness:
  "distinct (map name (targets (fresh_app 5 10 0 [\<lparr>name = ''web'', host = ''10.0.0.1'', port = 80\<rparr>] None)))
   \<and> map name (targets (snd (add_target demo_str_float \<lparr>name = ''web'', host = ''10.0.0.2'', port = 443\<rparr>
          (fresh_app 5 10 0 [\<lparr>name = ''web'', host = ''10.0.0.1'', port = 80\<rparr>] None))))
       = [''web'', ''web (2)'']
   \<and> distinct (map name (targets (snd (add_target demo_str_float \<lparr>name = ''web'', host = ''10.0.0.2'', port = 443\<rparr>
          (fresh_app 5 10 0 [\<lparr>name = ''web'', host = ''10.0.0.1'', port = 80\<rparr>] None)))))"
proof -
  have d: "distinct (map name (targets (fresh_app 5 10 0 [\<lparr>name = ''web'', host = ''10.0.0.1'', port = 80\<rparr>] None)))"
    by (simp add: fresh_app_def)
  have w2: "numbered ''web'' 2 = ''web (2)''"
    by code_simp
  have n: "next_free [''web''] ''web'' 2 = 2"
    by (simp add: next_free.simps [of _ _ 2] w2)
  have e: "map name (targets (snd (add_target demo_str_float \<lparr>name = ''web'', host = ''10.0.0.2'', port = 443\<rparr>
          (fresh_app 5 10 0 [\<lparr>name = ''web'', host = ''10.0.0.1'', port = 80\<rparr>] None))))
       = [''web'', ''web (2)'']"
    by (simp add: targets_add_target fresh_app_def n w2)
  have "distinct (map name (targets (snd (add_target demo_str_float \<lparr>name = ''web'', host = ''10.0.0.2'', port = 443\<rparr>
          (fresh_app 5 10 0 [\<lparr>name = ''web'', host = ''10.0.0.1'', port = 80\<rparr>] None)))))"
    using add_target_names [OF d, of demo_str_float "\<lparr>name = ''web'', host = ''10.0.0.2'', port = 443\<rparr>"]
    by (rule conjunct1)
  with d e show ?thesis
    by blast
qed

section \<open>Single flight\<close>

lemma sf_inv_init: "sf_inv sf_init"
  by (simp add: sf_inv_def sf_init_def)

lemma step_lock:
  assumes "sf_inv s"
  shows "holds_lock (pc_of (sf_step i s) k) \<Longrightarrow> lock_holder (sf_step i s) = Some k"
proof -
  assume h: "holds_lock (pc_of (sf_step i s) k)"
  have a: "\<And>j. holds_lock (pc_of s j) \<Longrightarrow> lock_holder s = Some j"
    using assms by (simp add: sf_inv_def)
  show ?thesis
  proof (cases "k = i")
    case True
    with h a [of i] show ?thesis
      by (cases "pc_of s i") (auto simp: sf_step_def split: if_splits)
  next
    case False
    with h have hk: "holds_lock (pc_of s k)"
      by (cases "pc_of s i") (auto simp: sf_step_def split: if_splits)
    then have lk: "lock_holder s = Some k"
      by (rule a)
    have "\<not> holds_lock (pc_of s i)"
      using a [of i] lk False by auto
    with lk show ?thesis
      by (cases "pc_of s i") (auto simp: sf_step_def split: if_splits)
  qed
qed

lemma step_session_flag:
  assumes "sf_inv s"
  shows "in_session (pc_of (sf_step i s) k) \<Longrightarrow> in_progress (sf_step i s)"
proof -
  assume h: "in_session (pc_of (sf_step i s) k)"
  have b: "\<And>j. in_session (pc_of s j) \<Longrightarrow> in_progress s"
    and e: "\<And>j l. in_session (pc_of s j) \<Longrightarrow> in_session (pc_of s l) \<Longrightarrow> j = l"
    using assms by (auto simp: sf_inv_def)
  show ?thesis
  proof (cases "k = i")
    case True
    with h b [of i] show ?thesis
      by (cases "pc_of s i") (auto simp: sf_step_def split: if_splits)
  next
    case False
    with h have hk: "in_session (pc_of s k)"
      by (cases "pc_of s i") (auto simp: sf_step_def split: if_splits)
    then have "in_progress s"
      by (rule b)
    moreover have "\<not> in_session (pc_of s i)"
      using e [OF hk, of i] False by auto
    ultimately show ?thesis
      by (cases "pc_of s i") (auto simp: sf_step_def split: if_splits)
  qed
qed

lemma step_setflag:
  assumes "sf_inv s"
  shows "pc_of (sf_step i s) k = SetFlag \<Longrightarrow> \<not> in_progress (sf_step i s)"
proof -
  assume h: "pc_of (sf_step i s) k = SetFlag"
  have a: "\<And>j. holds_lock (pc_of s j) \<Longrightarrow> lock_holder s = Some j"
    and c: "\<And>j. pc_of s j = SetFlag \<Longrightarrow> \<not> in_progress s"
    using assms by (auto simp: sf_inv_def)
  show ?thesis
  proof (cases "k = i")
    case True
    with h c [of i] show ?thesis
      by (cases "pc_of s i") (auto simp: sf_step_def split: if_splits)
  next
    case False
    with h have hk: "pc_of s k = SetFlag"
      by (cases "pc_of s i") (auto simp: sf_step_def split: if_splits)
    then have nf: "\<not> in_progress s"
      by (rule c)
    have "lock_holder s = Some k"
      using a [of k] hk by simp
    then have "\<not> holds_lock (pc_of s i)"
      using a [of i] False by auto
    with nf show ?thesis
      by (cases "pc_of s i") (auto simp: sf_step_def split: if_splits)
  qed
qed

lemma step_flag_session:
  assumes "sf_inv s"
  shows "in_progress (sf_step i s) \<Longrightarrow> \<exists>k. in_session (pc_of (sf_step i s) k)"
proof -
  assume h: "in_progress (sf_step i s)"
  have d: "in_progress s \<Longrightarrow> \<exists>j. in_session (pc_of s j)"
    and c: "\<And>j. pc_of s j = SetFlag \<Longrightarrow> \<not> in_progress s"
    and e: "\<And>j l. in_session (pc_of s j) \<Longrightarrow> in_session (pc_of s l) \<Longrightarrow> j = l"
    using assms by (auto simp: sf_inv_def)
  show ?thesis
  proof (cases "in_session (pc_of (sf_step i s) i)")
    case True
    then show ?thesis ..
  next
    case False
    with h have "in_progress s" and ni: "\<not> in_session (pc_of s i)"
      by (cases "pc_of s i"; auto simp: sf_step_def split: if_splits)+
    then obtain j where j: "in_session (pc_of s j)"
      using d by auto
    with ni have "j \<noteq> i"
      by auto
    then have "pc_of (sf_step i s) j = pc_of s j"
      by (cases "pc_of s i") (auto simp: sf_step_def split: if_splits)
    with j have "in_session (pc_of (sf_step i s) j)"
      by simp
    then show ?thesis ..
  qed
qed

lemma step_unique:
  assumes "sf_inv s"
  shows "in_session (pc_of (sf_step i s) k) \<Longrightarrow> in_session (pc_of (sf_step i s) l) \<Longrightarrow> k = l"
proof -
  assume hk: "in_session (pc_of (sf_step i s) k)" and hl: "in_session (pc_of (sf_step i s) l)"
  have b: "\<And>j. in_session (pc_of s j) \<Longrightarrow> in_progress s"
    and c: "\<And>j. pc_of s j = SetFlag \<Longrightarrow> \<not> in_progress s"
    and e: "\<And>j l. in_session (pc_of s j) \<Longrightarrow> in_session (pc_of s l) \<Longrightarrow> j = l"
    using assms by (auto simp: sf_inv_def)
  have other: "in_session (pc_of s j) \<and> pc_of s i \<noteq> SetFlag"
    if "j \<noteq> i" "in_session (pc_of (sf_step i s) j)" for j
  proof -
    from that have j: "in_session (pc_of s j)"
      by (cases "pc_of s i") (auto simp: sf_step_def split: if_splits)
    with b c [of i] show ?thesis
      by auto
  qed
  have self: "in_session (pc_of s i) \<or> pc_of s i = SetFlag"
    if "in_session (pc_of (sf_step i s) i)"
    using that by (cases "pc_of s i") (auto simp: sf_step_def split: if_splits)
  show ?thesis
  proof (cases "k = i"; cases "l = i")
    assume "k = i" "l = i"
    then show ?thesis by simp
  next
    assume k: "k = i" and l: "l \<noteq> i"
    from other [OF l hl] self hk k have "in_session (pc_of s i)" "in_session (pc_of s l)"
      by auto
    then show ?thesis
      using e k by auto
  next
    assume k: "k \<noteq> i" and l: "l = i"
    from other [OF k hk] self hl l have "in_session (pc_of s i)" "in_session (pc_of s k)"
      by auto
    then show ?thesis
      using e l by auto
  next
    assume "k \<noteq> i" "l \<noteq> i"
    then show ?thesis
      using other hk hl e by blast
  qed
qed

lemma sf_inv_step:
  assumes "sf_inv s"
  shows "sf_inv (sf_step i s)"
  unfolding sf_inv_def [of "sf_step i s"]
  using step_lock [OF assms, of i] step_session_flag [OF assms, of i] step_setflag [OF assms, of i]
    step_flag_session [OF assms, of i] step_unique [OF assms, of i]
  by blast

lemma sf_inv_run: "sf_inv s \<Longrightarrow> sf_inv (sf_run s schedule)"
  by (induction schedule arbitrary: s) (simp_all add: sf_inv_step)

lemma refresh_async_running: "refresh_in_progress a \<Longrightarrow> refresh_async a = a"
  by (simp add: refresh_async_def)

text \<open>
  C1: under every schedule of the steps of any number of calls of \<^verbatim>\<open>refresh_async\<close>, at
  most one call has a scan session at a time; the flag goes up only by a call that holds
  the lock and has seen the flag down under the lock; the flag is up exactly while a
  session exists; and a call that starts while the flag is up returns at once and changes
  nothing (in the interleaved steps and in \<^verbatim>\<open>refresh_async\<close> run as a whole).
\<close>

theorem single_flight:
  "(\<forall>i j. in_session (pc_of (sf_run sf_init schedule) i)
        \<and> in_session (pc_of (sf_run sf_init schedule) j) \<longrightarrow> i = j)
   \<and> (\<forall>i. pc_of (sf_run sf_init schedule) i = SetFlag \<longrightarrow>
          lock_holder (sf_run sf_init schedule) = Some i \<and> \<not> in_progress (sf_run sf_init schedule))
   \<and> in_progress (sf_run sf_init schedule) = (\<exists>i. in_session (pc_of (sf_run sf_init schedule) i))
   \<and> (\<forall>i. in_progress (sf_run sf_init schedule) \<and> pc_of (sf_run sf_init schedule) i = Idle0 \<longrightarrow>
          sf_step i (sf_run sf_init schedule)
            = (sf_run sf_init schedule)\<lparr>pc_of := (pc_of (sf_run sf_init schedule))(i := Returned)\<rparr>)
   \<and> (refresh_in_progress a \<longrightarrow> refresh_async a = a)"
proof -
  have "sf_inv (sf_run sf_init schedule)"
    by (rule sf_inv_run [OF sf_inv_init])
  then show ?thesis
    unfolding sf_inv_def
    by (auto simp: sf_step_def refresh_async_running)
qed

theorem single_flight_witness:
  "in_session (pc_of (sf_run sf_init [0, 0, 0, 0, 1]) 0)
   \<and> in_progress (sf_run sf_init [0, 0, 0, 0, 1])
   \<and> pc_of (sf_run sf_init [0, 0, 0, 0, 1]) 2 = Idle0
   \<and> sf_step 2 (sf_run sf_init [0, 0, 0, 0, 1])
        = (sf_run sf_init [0, 0, 0, 0, 1])\<lparr>pc_of := (pc_of (sf_run sf_init [0, 0, 0, 0, 1]))(2 := Returned)\<rparr>
   \<and> pc_of (sf_run sf_init [0, 1, 0, 0]) 0 = SetFlag
   \<and> lock_holder (sf_run sf_init [0, 1, 0, 0]) = Some 0
   \<and> \<not> in_progress (sf_run sf_init [0, 1, 0, 0])
   \<and> refresh_in_progress (refresh_async (fresh_app 5 10 0 [] None))
   \<and> refresh_async (refresh_async (fresh_app 5 10 0 [] None)) = refresh_async (fresh_app 5 10 0 [] None)"
proof -
  have a: "in_session (pc_of (sf_run sf_init [0, 0, 0, 0, 1]) 0)"
    "in_progress (sf_run sf_init [0, 0, 0, 0, 1])"
    "pc_of (sf_run sf_init [0, 0, 0, 0, 1]) 2 = Idle0"
    by (simp_all add: sf_init_def sf_step_def)
  have b: "pc_of (sf_run sf_init [0, 1, 0, 0]) 0 = SetFlag"
    by (simp add: sf_init_def sf_step_def)
  have c: "refresh_in_progress (refresh_async (fresh_app 5 10 0 [] None))"
    by (simp add: refresh_async_def fresh_app_def set_editing_enabled_def)
  show ?thesis
    using a b c single_flight [of "[0, 0, 0, 0, 1]" "refresh_async (fresh_app 5 10 0 [] None)"]
      single_flight [of "[0, 1, 0, 0]" "refresh_async (fresh_app 5 10 0 [] None)"]
    by blast
qed

section \<open>Editing while a scan runs\<close>






section \<open>The auto-refresh scheduler\<close>

lemma cancel_tracked:
  assumes "timer_inv s" "auto_after_id s = Some i"
  shows "filter (\<lambda>e. snd (snd e) = AutoRefreshTick) (filter (\<lambda>e. fst e \<noteq> i) (after_queue s)) = []"
  using assms by (auto simp: timer_inv_def filter_empty_conv)

lemma untracked_none:
  assumes "timer_inv s" "auto_after_id s = None"
  shows "filter (\<lambda>e. snd (snd e) = AutoRefreshTick) (after_queue s) = []"
  using assms by (auto simp: timer_inv_def filter_empty_conv)

text \<open>
  \<^verbatim>\<open>_schedule_auto_refresh\<close> by itself: with the queue tied to \<^verbatim>\<open>_auto_after_id\<close>, it
  leaves one auto-refresh timer, due the interval after now, or none for the interval 0.
\<close>

lemma schedule_auto_refresh_timers:
  assumes "timer_inv s"
  shows "auto_timers (schedule_auto_refresh s)
      = (if 0 < auto_refresh_seconds s
         then [(next_after_id s, now s + auto_refresh_seconds s * 1000)] else [])"
    and "auto_after_id (schedule_auto_refresh s)
      = (if 0 < auto_refresh_seconds s then Some (next_after_id s) else None)"
    and "timer_inv (schedule_auto_refresh s)"
proof -
  show "auto_timers (schedule_auto_refresh s)
      = (if 0 < auto_refresh_seconds s
         then [(next_after_id s, now s + auto_refresh_seconds s * 1000)] else [])"
  proof (cases "auto_after_id s")
    case None
    with untracked_none [OF assms] show ?thesis
      by (simp add: schedule_auto_refresh_def auto_timers_def after_def Let_def)
  next
    case (Some i)
    with cancel_tracked [OF assms] show ?thesis
      by (simp add: schedule_auto_refresh_def auto_timers_def after_def after_cancel_def Let_def)
  qed
  show "auto_after_id (schedule_auto_refresh s)
      = (if 0 < auto_refresh_seconds s then Some (next_after_id s) else None)"
    by (cases "auto_after_id s")
       (simp_all add: schedule_auto_refresh_def after_def after_cancel_def Let_def)
  show "timer_inv (schedule_auto_refresh s)"
  proof (cases "auto_after_id s")
    case None
    with untracked_none [OF assms] show ?thesis
      by (auto simp: schedule_auto_refresh_def timer_inv_def after_def Let_def filter_empty_conv)
  next
    case (Some i)
    with cancel_tracked [OF assms] show ?thesis
      by (auto simp: schedule_auto_refresh_def timer_inv_def after_def after_cancel_def Let_def
          filter_empty_conv)
  qed
qed

text \<open>
  The tick: when the pending auto-refresh timer fires, exactly one new timer is left
  (none for the interval 0), due the interval after the moment the tick runs.
\<close>

lemma tick_reprograms:
  assumes "timer_inv s"
    and "find (\<lambda>e. fst e = i) (after_queue s) = Some (i, due, AutoRefreshTick)" "due \<le> now s"
  shows "fst (fire stamp i s) = None
    \<and> (\<exists>j. auto_timers (snd (fire stamp i s))
             = (if 0 < auto_refresh_seconds s then [(j, now s + auto_refresh_seconds s * 1000)] else []))
    \<and> timer_inv (snd (fire stamp i s))"
proof -
  let ?c = "refresh_async (after_cancel i s)"
  have fr: "fire stamp i s = (None, schedule_auto_refresh ?c)"
    using assms(2,3) by (simp add: fire_def run_callback_def auto_refresh_tick_def)
  have "timer_inv (after_cancel i s)"
    using assms(1) by (auto simp: timer_inv_def after_cancel_def)
  then have invc: "timer_inv ?c"
    by (simp only: timer_inv_refresh_async)
  have fc: "auto_refresh_seconds ?c = auto_refresh_seconds s" "now ?c = now s"
    by (simp_all add: auto_refresh_seconds_refresh_async now_refresh_async after_cancel_def)
  show ?thesis
    using schedule_auto_refresh_timers(1) [OF invc] schedule_auto_refresh_timers(3) [OF invc]
    by (simp add: fr fc)
qed

text \<open>
  \<^verbatim>\<open>apply_settings\<close> when nothing raises: the pending timer is cancelled and the only
  timer left is a new one, due the new interval after the moment of the change.
\<close>

lemma apply_settings_saved:
  assumes "timer_inv s" and "fst (apply_settings str_float timeout_new max_workers_new auto_refresh s) = None"
  shows "\<exists>j. auto_timers (snd (apply_settings str_float timeout_new max_workers_new auto_refresh s))
        = (if 0 < auto_refresh then [(j, now s + auto_refresh * 1000)] else [])
      \<and> auto_after_id (snd (apply_settings str_float timeout_new max_workers_new auto_refresh s))
        = (if 0 < auto_refresh then Some j else None)"
proof -
  define s1 where "s1 = s\<lparr>timeout := timeout_new, max_workers := max_workers_new,
      auto_refresh_seconds := auto_refresh\<rparr>"
  define s2 where "s2 = (if max_workers s1 \<noteq> max_workers s
      then s1\<lparr>executor := \<lparr>pool_size = max_workers s1, is_shutdown = False\<rparr>\<rparr> else s1)"
  have ok: "\<not> (max_workers s1 \<noteq> max_workers s \<and> max_workers s1 \<le> 0)"
    using assms(2) unfolding apply_settings_def Let_def s1_def by (auto split: if_splits)
  then have ap: "apply_settings str_float timeout_new max_workers_new auto_refresh s
      = (case persist str_float s2 of (Some e, s3) \<Rightarrow> (Some e, s3)
         | (None, s3) \<Rightarrow> (None, refresh_async (schedule_auto_refresh s3)))"
    unfolding apply_settings_def Let_def s1_def s2_def
    by (cases "max_workers_new = max_workers s") simp_all
  show ?thesis
  proof (cases str_float s2 rule: persist_cases)
    case (raises e)
    with assms(2) show ?thesis
      by (simp add: ap)
  next
    case (saves saved)
    let ?s3 = "s2\<lparr>ini_file := Some saved\<rparr>"
    have r: "snd (apply_settings str_float timeout_new max_workers_new auto_refresh s)
        = refresh_async (schedule_auto_refresh ?s3)"
      by (simp add: ap saves)
    have inv3: "timer_inv ?s3"
      using assms(1) by (simp add: timer_inv_def s2_def s1_def)
    have f3: "auto_refresh_seconds ?s3 = auto_refresh" "now ?s3 = now s"
      by (simp_all add: s2_def s1_def)
    show ?thesis
      unfolding r auto_timers_refresh_async auto_after_id_refresh_async
        schedule_auto_refresh_timers(1) [OF inv3] schedule_auto_refresh_timers(2) [OF inv3] f3
      by simp
  qed
qed

lemma save_state_zone: "save_state demo_str_float 5 10 5 [zone_target] = Inl ValueError"
  by code_simp

lemma save_state_zone_2: "save_state demo_str_float 5 10 2 [zone_target] = Inl ValueError"
  by code_simp

lemma save_state_zone_0: "save_state demo_str_float 5 10 0 [zone_target] = Inl ValueError"
  by code_simp

lemma timer_app_fields:
  "after_queue timer_app = [(0, 5000, AutoRefreshTick)]" "auto_after_id timer_app = Some 0"
  "next_after_id timer_app = 1" "now timer_app = 0" "auto_refresh_seconds timer_app = 5"
  "timeout timer_app = 5" "max_workers timer_app = 10" "targets timer_app = []"
  by (simp_all add: timer_app_def schedule_auto_refresh_def rebuild_rows_def fresh_app_def after_def)

lemma zone_app_raises: "add_target demo_str_float zone_target timer_app
    = (Some ValueError, timer_app\<lparr>targets := [zone_target]\<rparr>)"
  by (simp add: add_target_def persist_def Let_def timer_app_fields save_state_zone)

lemma zone_app_eq: "zone_app = timer_app\<lparr>targets := [zone_target]\<rparr>"
  by (simp add: zone_app_def zone_app_raises)

text \<open>
  C8 says that changing the interval cancels the pending trigger and schedules the next
  firing with the new interval, from the moment of the change. \<^verbatim>\<open>apply_settings\<close> calls
  \<^verbatim>\<open>persist\<close> before \<^verbatim>\<open>_schedule_auto_refresh\<close>, and \<^verbatim>\<open>persist\<close> raises
  \<^verbatim>\<open>ValueError\<close> when a host holds a percent sign. The application refreshes every five
  seconds and the target \<^verbatim>\<open>fe80::1%eth0\<close> has been added (which raised, after the
  target had joined the list). One second later the interval is changed to two seconds,
  or to 0: the new interval is stored, the call raises, and the old timer, due at five
  seconds, is still the one pending.
\<close>

theorem apply_settings_keeps_old_timer:
  "fst (add_target demo_str_float zone_target timer_app) = Some ValueError
   \<and> targets zone_app = [zone_target]
   \<and> auto_timers (advance 1000 zone_app) = [(0, 5000)]
   \<and> fst (apply_settings demo_str_float 5 10 2 (advance 1000 zone_app)) = Some ValueError
   \<and> auto_refresh_seconds (snd (apply_settings demo_str_float 5 10 2 (advance 1000 zone_app))) = 2
   \<and> auto_timers (snd (apply_settings demo_str_float 5 10 2 (advance 1000 zone_app))) = [(0, 5000)]
   \<and> fst (apply_settings demo_str_float 5 10 0 (advance 1000 zone_app)) = Some ValueError
   \<and> auto_refresh_seconds (snd (apply_settings demo_str_float 5 10 0 (advance 1000 zone_app))) = 0
   \<and> auto_timers (snd (apply_settings demo_str_float 5 10 0 (advance 1000 zone_app))) = [(0, 5000)]"
  by (simp add: zone_app_raises zone_app_eq apply_settings_def persist_def Let_def advance_def
      timer_app_fields save_state_zone_2 save_state_zone_0 auto_timers_def)

section \<open>The worker: one batch per scan\<close>

lemma submit_all_spec:
  "submit_all s rs acc = Inr futs \<Longrightarrow>
   futs = acc @ map (\<lambda>p. (submitted_future s (fst p) (snd p), row_id (snd p))) (enumerate (length acc) rs)"
proof (induction rs arbitrary: acc)
  case Nil
  then show ?case by simp
next
  case (Cons row rs)
  from Cons.prems have alive: "\<not> is_shutdown (executor s)"
    by (auto simp: Let_def split: if_splits)
  with Cons.prems have
    "submit_all s rs (acc @ [(submitted_future s (length acc) row, row_id row)]) = Inr futs"
    by (simp add: Let_def submitted_future_def)
  from Cons.IH [OF this] show ?case
    by simp
qed

lemma worker_submit_spec:
  assumes "worker_submit s = Inr futs"
  shows "futs = map (\<lambda>p. (submitted_future s (fst p) (snd p), row_id (snd p))) (enumerate 0 (rows s))"
  using submit_all_spec [of s "rows s" "[]" futs] assms by (simp add: worker_submit_def)

lemma map_snd_enum: "map (\<lambda>p. g (snd p)) (enumerate n xs) = map g xs"
  by (induction xs arbitrary: n) simp_all

lemma map_fst_enum: "map (\<lambda>p. fst p) (enumerate n xs) = [n..<n + length xs]"
  using map_fst_enumerate [of n xs] by simp












lemma rows_rebuild_rows_distinct: "distinct (map row_id (rows (rebuild_rows s)))"
proof -
  have "map row_id (rows (rebuild_rows s))
      = map (\<lambda>i. next_row_id s + i) (map (\<lambda>p. fst p) (enumerate 0 (targets s)))"
    unfolding map_map by (simp add: rebuild_rows_def new_row_def comp_def case_prod_unfold)
  then have "map row_id (rows (rebuild_rows s))
      = map (\<lambda>i. next_row_id s + i) [0..<length (targets s)]"
    by (simp only: map_fst_enum add_0)
  then show ?thesis
    by (simp add: distinct_map inj_on_def)
qed






section \<open>The worker: a scan that fails\<close>

lemma recover_fields:
  "\<not> refresh_in_progress (recover s)" "refresh_button_enabled (recover s)"
  "add_btn_enabled (recover s)" "settings_button_enabled (recover s)"
  "map status_label (rows (recover s)) = map status_label (rows s)"
  "worker_threads (recover s) = worker_threads s"
  by (simp_all add: recover_def set_editing_enabled_def comp_def)

lemma refresh_async_idle:
  "\<not> refresh_in_progress s \<Longrightarrow>
   refresh_in_progress (refresh_async s) \<and> worker_threads (refresh_async s) = worker_threads s + 1"
  by (simp add: refresh_async_def Let_def set_editing_enabled_def)

lemma worker_finish_fields:
  "after_queue (worker_finish w ac sub s)
     = after_queue s @ [(next_after_id s, now s, worker_outcome w ac sub)]"
  "rows (worker_finish w ac sub s) = rows s"
  "worker_threads (worker_finish w ac sub s) = worker_threads s"
  "refresh_in_progress (worker_finish w ac sub s) = refresh_in_progress s"
  by (simp_all add: worker_finish_def after_def)

lemma idna_rows:
  "rows idna_app =
     [\<lparr>row_id = 0, target = \<lparr>name = ''web'', host = ''127.0.0.1'', port = 9\<rparr>,
        status_label = Checking, delete_enabled = False\<rparr>,
      \<lparr>row_id = 1, target = \<lparr>name = ''odd'', host = ''a..b'', port = 80\<rparr>,
        status_label = Checking, delete_enabled = False\<rparr>]"
  by (simp add: idna_app_def refresh_async_def rebuild_rows_def fresh_app_def
      set_editing_enabled_def new_row_def Let_def)

lemma idna_fields:
  "timeout idna_app = 1" "\<not> is_shutdown (executor idna_app)" "after_queue idna_app = []"
  "next_after_id idna_app = 0" "now idna_app = 0"
  by (simp_all add: idna_app_def refresh_async_def rebuild_rows_def fresh_app_def
      set_editing_enabled_def Let_def)

text \<open>
  C6: when \<^verbatim>\<open>submit\<close> raises or a future's \<^verbatim>\<open>result()\<close> raises, the worker posts
  exactly one callback, \<^verbatim>\<open>recover\<close>, and no results; it touches no row. Running
  \<^verbatim>\<open>recover\<close> resets \<^verbatim>\<open>refresh_in_progress\<close>, enables the buttons again and leaves the
  labels of the rows as they were; after it \<^verbatim>\<open>refresh_async\<close> starts a new scan.
\<close>

theorem scan_failure_recovers:
  assumes "worker_submit s = Inl e
    \<or> (\<exists>futs. worker_submit s = Inr futs \<and> collect w futs (as_completed futs) [] = Inl e)"
  shows "after_queue (refresh_worker w as_completed s)
      = after_queue s @ [(next_after_id s, now s, Recover)]
    \<and> rows (refresh_worker w as_completed s) = rows s
    \<and> run_callback stamp Recover (refresh_worker w as_completed s)
      = (None, recover (refresh_worker w as_completed s))
    \<and> \<not> refresh_in_progress (recover (refresh_worker w as_completed s))
    \<and> map status_label (rows (recover (refresh_worker w as_completed s))) = map status_label (rows s)
    \<and> refresh_button_enabled (recover (refresh_worker w as_completed s))
    \<and> add_btn_enabled (recover (refresh_worker w as_completed s))
    \<and> settings_button_enabled (recover (refresh_worker w as_completed s))
    \<and> refresh_in_progress (refresh_async (recover (refresh_worker w as_completed s)))
    \<and> worker_threads (refresh_async (recover (refresh_worker w as_completed s))) = worker_threads s + 1"
proof -
  have out: "worker_outcome w as_completed (worker_submit s) = Recover"
    using assms by (auto simp: worker_outcome_def)
  have q: "after_queue (refresh_worker w as_completed s)
      = after_queue s @ [(next_after_id s, now s, Recover)]"
    by (simp add: refresh_worker_def worker_finish_fields out)
  have r: "rows (refresh_worker w as_completed s) = rows s"
    "worker_threads (refresh_worker w as_completed s) = worker_threads s"
    by (simp_all add: refresh_worker_def worker_finish_fields)
  have c: "run_callback stamp Recover (refresh_worker w as_completed s)
      = (None, recover (refresh_worker w as_completed s))"
    by (simp add: run_callback_def)
  from q r c show ?thesis
    using refresh_async_idle [OF recover_fields(1), of "refresh_worker w as_completed s"]
    by (simp add: recover_fields)
qed

theorem scan_failure_recovers_witness:
  "(\<exists>futs. worker_submit idna_app = Inr futs
        \<and> collect idna_world futs (map fst futs) [] = Inl UnicodeError)
   \<and> after_queue (refresh_worker idna_world (map fst) idna_app) = [(0, 0, Recover)]
   \<and> \<not> refresh_in_progress (recover (refresh_worker idna_world (map fst) idna_app))
   \<and> map status_label (rows (recover (refresh_worker idna_world (map fst) idna_app)))
       = [Checking, Checking]"
proof -
  have f: "\<exists>futs. worker_submit idna_app = Inr futs
        \<and> collect idna_world futs (map fst futs) [] = Inl UnicodeError"
    by (simp add: worker_submit_def idna_rows idna_fields Let_def future_result_def
        check_tcp_open_def idna_world_def)
  then have a: "worker_submit idna_app = Inl UnicodeError
    \<or> (\<exists>futs. worker_submit idna_app = Inr futs
          \<and> collect idna_world futs (map fst futs) [] = Inl UnicodeError)"
    by blast
  show ?thesis
    using f scan_failure_recovers [OF a, of "''12:00:00''"]
    by (simp add: idna_rows idna_fields)
qed

section \<open>The worker: the snapshot\<close>

text \<open>
  What the worker takes from the application: the rows of the moment it starts and, for
  each, the host and port its target has at that moment, passed to the probe as values.
\<close>

lemma worker_submit_endpoints:
  assumes "worker_submit s = Inr futs"
  shows "map (\<lambda>p. (snd p, fut_host (fst p), fut_port (fst p))) futs
      = map (\<lambda>row. (row_id row, host (target row), port (target row))) (rows s)"
  unfolding worker_submit_spec [OF assms]
  using map_snd_enum [of "\<lambda>row. (row_id row, host (target row), port (target row))" 0 "rows s"]
  by (simp add: comp_def submitted_future_def)

text \<open>
  C5 says that a change of the live target list after a scan has started cannot change how
  the results of the scan are labelled. \<^verbatim>\<open>add_target\<close>, unlike \<^verbatim>\<open>delete_row\<close>,
  \<^verbatim>\<open>open_add_dialog\<close> and \<^verbatim>\<open>open_settings\<close>, does not look at
  \<^verbatim>\<open>refresh_in_progress\<close>. The dialog is opened while no scan runs; the timer then
  starts a scan of the two targets; the dialog is submitted, and \<^verbatim>\<open>add_target\<close> rebuilds
  the rows; the worker, which holds the two rows of before, posts its two results. When
  \<^verbatim>\<open>apply_results\<close> runs, the first \<^verbatim>\<open>set_result\<close> is on a destroyed row and raises: no
  row shows a result, and \<^verbatim>\<open>refresh_in_progress\<close> stays set, so that no scan starts any
  more. Without the call of \<^verbatim>\<open>add_target\<close> the same results are shown on the two rows.
\<close>

theorem add_target_during_scan:
  "add_dialog_open dialog_app \<and> \<not> refresh_in_progress dialog_app
   \<and> refresh_in_progress scanning_app
   \<and> worker_submit scanning_app =
       Inr [(\<lparr>fut_id = 0, fut_host = ''127.0.0.1'', fut_port = 9, fut_timeout = 1\<rparr>, 0),
            (\<lparr>fut_id = 1, fut_host = ''example.com'', fut_port = 443, fut_timeout = 1\<rparr>, 1)]
   \<and> fst (add_target demo_str_float \<lparr>name = ''new'', host = ''10.0.0.9'', port = 22\<rparr> scanning_app) = None
   \<and> map row_id (rows edited_app) = [2, 3, 4]
   \<and> after_queue finished_app
       = [(1, 10000, AutoRefreshTick),
          (2, 5000, ApplyResults [(1, ''OPEN'', Some 2500), (0, ''CLOSED'', None)])]
   \<and> fst (fire ''12:00:06'' 2 finished_app) = Some TclError
   \<and> map status_label (rows (snd (fire ''12:00:06'' 2 finished_app))) = [Dash, Dash, Dash]
   \<and> refresh_in_progress (snd (fire ''12:00:06'' 2 finished_app))
   \<and> refresh_async (snd (fire ''12:00:06'' 2 finished_app)) = snd (fire ''12:00:06'' 2 finished_app)
   \<and> fst (fire ''12:00:06'' 2 (refresh_worker demo_world reversed_completion scanning_app)) = None
   \<and> map status_label (rows (snd (fire ''12:00:06'' 2
         (refresh_worker demo_world reversed_completion scanning_app))))
       = [Result ''CLOSED'' None, Result ''OPEN'' (Some 2500)]"
proof (intro conjI)
  show "add_dialog_open dialog_app" "\<not> refresh_in_progress dialog_app"
    "refresh_in_progress scanning_app"
    by code_simp+
  show "worker_submit scanning_app =
       Inr [(\<lparr>fut_id = 0, fut_host = ''127.0.0.1'', fut_port = 9, fut_timeout = 1\<rparr>, 0),
            (\<lparr>fut_id = 1, fut_host = ''example.com'', fut_port = 443, fut_timeout = 1\<rparr>, 1)]"
    by code_simp
  show "fst (add_target demo_str_float \<lparr>name = ''new'', host = ''10.0.0.9'', port = 22\<rparr> scanning_app) = None"
    by code_simp
  show "map row_id (rows edited_app) = [2, 3, 4]"
    by code_simp
  show "after_queue finished_app
       = [(1, 10000, AutoRefreshTick),
          (2, 5000, ApplyResults [(1, ''OPEN'', Some 2500), (0, ''CLOSED'', None)])]"
    by code_simp
  show "fst (fire ''12:00:06'' 2 finished_app) = Some TclError"
    by code_simp
  show "map status_label (rows (snd (fire ''12:00:06'' 2 finished_app))) = [Dash, Dash, Dash]"
    by code_simp
  show running: "refresh_in_progress (snd (fire ''12:00:06'' 2 finished_app))"
    by code_simp
  show "refresh_async (snd (fire ''12:00:06'' 2 finished_app)) = snd (fire ''12:00:06'' 2 finished_app)"
    using running by (simp add: refresh_async_def)
  show "fst (fire ''12:00:06'' 2 (refresh_worker demo_world reversed_completion scanning_app)) = None"
    by code_simp
  show "map status_label (rows (snd (fire ''12:00:06'' 2
         (refresh_worker demo_world reversed_completion scanning_app))))
       = [Result ''CLOSED'' None, Result ''OPEN'' (Some 2500)]"
    by code_simp
qed

end
